theory Spec2Isabelle
  imports Complex_Main "HOL-Library.Multiset"
begin

section \<open>Strings of the host language\<close>

text \<open>
  A JavaScript string is a sequence of code units. The model writes a string as a
  \<^typ>\<open>string\<close>, one \<^typ>\<open>char\<close> per code unit, and so covers the code units below 256.
  \<open>is_space\<close> holds of the code units that \<open>String.prototype.trim\<close> strips (the WhiteSpace
  and LineTerminator code units of that range: TAB, LF, VT, FF, CR, SP, NBSP).
\<close>

definition is_space :: "char \<Rightarrow> bool" where
  "is_space c = (let k = (of_char c :: nat) in (9 \<le> k \<and> k \<le> 13) \<or> k = 32 \<or> k = 160)"

definition trim :: "string \<Rightarrow> string" where
  "trim s = rev (dropWhile is_space (rev (dropWhile is_space s)))"

definition lower_char :: "char \<Rightarrow> char" where
  "lower_char c =
     (let k = (of_char c :: nat)
      in if (65 \<le> k \<and> k \<le> 90) \<or> (192 \<le> k \<and> k \<le> 222 \<and> k \<noteq> 215)
         then char_of (k + 32) else c)"

definition toLowerCase :: "string \<Rightarrow> string" where
  "toLowerCase s = map lower_char s"

text \<open>\<open>s.includes(q)\<close>: \<open>q\<close> occurs in \<open>s\<close> as a contiguous run of code units.\<close>

fun includes_str :: "string \<Rightarrow> string \<Rightarrow> bool" where
  "includes_str [] q = (q = [])"
| "includes_str (c # cs) q = (take (length q) (c # cs) = q \<or> includes_str cs q)"

text \<open>\<open>v || d\<close> for a \<open>v\<close> that is a string or undefined: the empty string is falsy.\<close>

definition or_else :: "string option \<Rightarrow> string \<Rightarrow> string" where
  "or_else v d = (case v of None \<Rightarrow> d | Some s \<Rightarrow> if s = [] then d else s)"

section \<open>Notes\<close>

text \<open>
  The \<open>Note\<close> typedef of the store: every property present. The property \<open>id\<close> is the
  field \<open>id_note\<close>.
\<close>

record Note =
  id_note :: string
  title :: string
  content :: string
  tags :: "string list"
  favorite :: bool
  createdAt :: string
  updatedAt :: string

text \<open>
  \<open>Partial<Note>\<close>, the argument of \<open>normalizeNote\<close>, \<open>createNote\<close> and the \<open>fields\<close> of
  \<open>updateNote\<close>: each property is optional, \<open>None\<close> when the object does not have it (reading
  it gives undefined, and \<open>Array.isArray\<close> of it is false).
\<close>

record partial_note =
  id_opt :: "string option"
  title_opt :: "string option"
  content_opt :: "string option"
  tags_opt :: "string list option"
  favorite_opt :: "bool option"
  createdAt_opt :: "string option"
  updatedAt_opt :: "string option"

definition no_fields :: partial_note where
  "no_fields = \<lparr> id_opt = None, title_opt = None, content_opt = None, tags_opt = None,
                  favorite_opt = None, createdAt_opt = None, updatedAt_opt = None \<rparr>"

text \<open>
  \<open>[...new Set(xs)]\<close>: a Set keeps its members in insertion order and ignores the insertion
  of a member it already has.
\<close>

definition set_add :: "'a list \<Rightarrow> 'a \<Rightarrow> 'a list" where
  "set_add s x = (if x \<in> set s then s else s @ [x])"

definition new_Set :: "'a list \<Rightarrow> 'a list" where
  "new_Set xs = foldl set_add [] xs"

text \<open>
  \<open>normalizeNote\<close>. The two sources of nondeterminism are arguments: \<open>now\<close> is what
  \<open>new Date().toISOString()\<close> returns and \<open>uid\<close> what \<open>uid()\<close> returns (read only when the
  input has no truthy id).
\<close>

definition normalizeNote :: "string \<Rightarrow> string \<Rightarrow> partial_note \<Rightarrow> Note" where
  "normalizeNote now uid n =
     \<lparr> id_note = or_else (id_opt n) uid,
       title = trim (or_else (title_opt n) []),
       content = or_else (content_opt n) [],
       tags = (case tags_opt n of
                 Some ts \<Rightarrow> new_Set (filter (\<lambda>t. t \<noteq> []) (map trim ts))
               | None \<Rightarrow> []),
       favorite = (case favorite_opt n of Some b \<Rightarrow> b | None \<Rightarrow> False),
       createdAt = or_else (createdAt_opt n) now,
       updatedAt = or_else (updatedAt_opt n) now \<rparr>"

section \<open>The persistence adapter on the raw slot\<close>

text \<open>
  What \<open>JSON.parse\<close> can return. An object is the list of its own properties, each key
  once. The payload of a number is read by nothing but the truthiness test.
\<close>

datatype json =
    JNull
  | JBool bool
  | JNum rat
  | JStr string
  | JArr "json list"
  | JObj "(string \<times> json) list"

datatype exn = SecurityError | SyntaxError | TypeError

definition truthy :: "json \<Rightarrow> bool" where
  "truthy v = (case v of
       JNull \<Rightarrow> False
     | JBool b \<Rightarrow> b
     | JNum x \<Rightarrow> x \<noteq> 0
     | JStr s \<Rightarrow> s \<noteq> []
     | JArr _ \<Rightarrow> True
     | JObj _ \<Rightarrow> True)"

text \<open>
  \<open>parsed.notes\<close>: a TypeError on null, the property of an object (\<open>None\<close> is undefined),
  undefined on a boolean, a number, a string and an array.
\<close>

definition prop_notes :: "json \<Rightarrow> exn + json option" where
  "prop_notes v = (case v of
       JNull \<Rightarrow> Inl TypeError
     | JObj fs \<Rightarrow> Inr (map_of fs ''notes'')
     | _ \<Rightarrow> Inr None)"

definition isArray :: "json option \<Rightarrow> bool" where
  "isArray v = (case v of Some (JArr _) \<Rightarrow> True | _ \<Rightarrow> False)"

definition empty_store :: json where
  "empty_store = JObj [(''notes'', JArr [])]"

text \<open>
  The body of the \<open>try\<close> block of \<open>readStore\<close>. \<open>getItem\<close> is the outcome of
  \<open>localStorage.getItem(STORAGE_KEY)\<close>: an exception, null (\<open>Inr None\<close>) or the stored text.
  \<open>JSON_parse\<close> is the host's parser, \<open>None\<close> where it throws a SyntaxError.
\<close>

definition readStore_try :: "(string \<Rightarrow> json option) \<Rightarrow> exn + string option \<Rightarrow> exn + json" where
  "readStore_try JSON_parse getItem =
     (case getItem of
        Inl e \<Rightarrow> Inl e
      | Inr None \<Rightarrow> Inr empty_store
      | Inr (Some raw) \<Rightarrow>
          if raw = [] then Inr empty_store
          else (case JSON_parse raw of
                  None \<Rightarrow> Inl SyntaxError
                | Some parsed \<Rightarrow>
                    if \<not> truthy parsed then Inr empty_store
                    else (case prop_notes parsed of
                            Inl e \<Rightarrow> Inl e
                          | Inr v \<Rightarrow> if \<not> isArray v then Inr empty_store else Inr parsed)))"

text \<open>\<open>readStore\<close>: the \<open>catch\<close> turns every exception of the body into the empty envelope.\<close>

definition readStore :: "(string \<Rightarrow> json option) \<Rightarrow> exn + string option \<Rightarrow> json" where
  "readStore JSON_parse getItem =
     (case readStore_try JSON_parse getItem of Inl _ \<Rightarrow> empty_store | Inr v \<Rightarrow> v)"

section \<open>The typed store\<close>

text \<open>What \<open>JSON.stringify\<close> writes for a note and for the envelope, as parsed back.\<close>

definition encode_note :: "Note \<Rightarrow> json" where
  "encode_note n =
     JObj [(''id'', JStr (id_note n)), (''title'', JStr (title n)),
           (''content'', JStr (content n)), (''tags'', JArr (map JStr (tags n))),
           (''favorite'', JBool (favorite n)), (''createdAt'', JStr (createdAt n)),
           (''updatedAt'', JStr (updatedAt n))]"

definition encode_store :: "Note list \<Rightarrow> json" where
  "encode_store ns = JObj [(''notes'', JArr (map encode_note ns))]"

text \<open>
  The state of the durable slot as the store operations see it. \<open>slot\<close> is \<open>Some ns\<close> when
  the text in the slot parses to \<open>encode_store ns\<close>, which \<open>readStore\<close> then returns, and
  \<open>None\<close> when \<open>readStore\<close> falls back to the empty envelope. \<open>setItem_calls\<close> counts the
  writes to the slot; \<open>localStorage.setItem\<close> is taken to succeed.
\<close>

record storage =
  slot :: "Note list option"
  setItem_calls :: nat

definition readStore_notes :: "storage \<Rightarrow> Note list" where
  "readStore_notes st = (case slot st of None \<Rightarrow> [] | Some ns \<Rightarrow> ns)"

definition writeStore :: "Note list \<Rightarrow> storage \<Rightarrow> storage" where
  "writeStore ns st = st\<lparr> slot := Some ns, setItem_calls := Suc (setItem_calls st) \<rparr>"

definition createNote :: "string \<Rightarrow> string \<Rightarrow> partial_note \<Rightarrow> storage \<Rightarrow> Note \<times> storage" where
  "createNote now uid initial st =
     (let note = normalizeNote now uid initial;
          store = readStore_notes st
      in (note, writeStore (store @ [note]) st))"

definition getNote :: "string \<Rightarrow> storage \<Rightarrow> Note option" where
  "getNote i st = find (\<lambda>n. id_note n = i) (readStore_notes st)"

text \<open>\<open>findIndex\<close>: the index of the first match, \<open>None\<close> for -1.\<close>

fun findIndex :: "('a \<Rightarrow> bool) \<Rightarrow> 'a list \<Rightarrow> nat option" where
  "findIndex P [] = None"
| "findIndex P (x # xs) =
     (if P x then Some 0 else (case findIndex P xs of None \<Rightarrow> None | Some k \<Rightarrow> Some (Suc k)))"

text \<open>\<open>{...existing, ...fields}\<close>: a property of \<open>fields\<close> replaces that of the stored note.\<close>

definition spread :: "Note \<Rightarrow> partial_note \<Rightarrow> partial_note" where
  "spread e f =
     \<lparr> id_opt = (case id_opt f of None \<Rightarrow> Some (id_note e) | Some v \<Rightarrow> Some v),
       title_opt = (case title_opt f of None \<Rightarrow> Some (title e) | Some v \<Rightarrow> Some v),
       content_opt = (case content_opt f of None \<Rightarrow> Some (content e) | Some v \<Rightarrow> Some v),
       tags_opt = (case tags_opt f of None \<Rightarrow> Some (tags e) | Some v \<Rightarrow> Some v),
       favorite_opt = (case favorite_opt f of None \<Rightarrow> Some (favorite e) | Some v \<Rightarrow> Some v),
       createdAt_opt = (case createdAt_opt f of None \<Rightarrow> Some (createdAt e) | Some v \<Rightarrow> Some v),
       updatedAt_opt = (case updatedAt_opt f of None \<Rightarrow> Some (updatedAt e) | Some v \<Rightarrow> Some v) \<rparr>"

text \<open>
  \<open>updateNote\<close>. \<open>stamp\<close> is the \<open>new Date().toISOString()\<close> of the object literal, \<open>now\<close> and
  \<open>uid\<close> are those of the call of \<open>normalizeNote\<close>. Not found: \<open>None\<close> and no write.
\<close>

definition updateNote ::
  "string \<Rightarrow> string \<Rightarrow> string \<Rightarrow> string \<Rightarrow> partial_note \<Rightarrow> storage \<Rightarrow> Note option \<times> storage" where
  "updateNote stamp now uid i flds st =
     (let store = readStore_notes st
      in case findIndex (\<lambda>n. id_note n = i) store of
           None \<Rightarrow> (None, st)
         | Some idx \<Rightarrow>
             (let merged = normalizeNote now uid
                    ((spread (store ! idx) flds)\<lparr> id_opt := Some i, updatedAt_opt := Some stamp \<rparr>)
              in (Some merged, writeStore (store[idx := merged]) st)))"

definition deleteNote :: "string \<Rightarrow> storage \<Rightarrow> bool \<times> storage" where
  "deleteNote i st =
     (let store = readStore_notes st;
          before = length store;
          store' = filter (\<lambda>n. id_note n \<noteq> i) store
      in (length store' < before, writeStore store' st))"

definition toggleFavorite ::
  "string \<Rightarrow> string \<Rightarrow> string \<Rightarrow> string \<Rightarrow> storage \<Rightarrow> Note option \<times> storage" where
  "toggleFavorite stamp now uid i st =
     (case getNote i st of
        None \<Rightarrow> (None, st)
      | Some n \<Rightarrow> updateNote stamp now uid i (no_fields\<lparr> favorite_opt := Some (\<not> favorite n) \<rparr>) st)"

section \<open>Sorting and listing\<close>

text \<open>
  \<open>Array.prototype.sort\<close> with a comparison function. The result of the comparison is a
  number, \<open>None\<close> for NaN, which the sort reads as +0. The language asks for a stable sort
  when the comparison is consistent, and every such sort then returns the list that this
  insertion sort returns. When the comparison is not consistent the language leaves the
  order to the engine: what is proved of sorted lists below is proved for consistent
  comparisons.
\<close>

definition sort_compare :: "('a \<Rightarrow> 'a \<Rightarrow> int option) \<Rightarrow> 'a \<Rightarrow> 'a \<Rightarrow> int" where
  "sort_compare cmp x y = (case cmp x y of None \<Rightarrow> 0 | Some v \<Rightarrow> v)"

fun insert_by :: "('a \<Rightarrow> 'a \<Rightarrow> int option) \<Rightarrow> 'a \<Rightarrow> 'a list \<Rightarrow> 'a list" where
  "insert_by cmp x [] = [x]"
| "insert_by cmp x (y # ys) =
     (if sort_compare cmp x y \<le> 0 then x # y # ys else y # insert_by cmp x ys)"

definition array_sort :: "('a \<Rightarrow> 'a \<Rightarrow> int option) \<Rightarrow> 'a list \<Rightarrow> 'a list" where
  "array_sort cmp xs = foldr (insert_by cmp) xs []"

text \<open>
  The comparison function of \<open>sortNotes\<close>. \<open>getTime d\<close> is \<open>new Date(d).getTime()\<close>, \<open>None\<close>
  for NaN (a text that is no date); \<open>localeCompare a b\<close> is \<open>a.localeCompare(b)\<close>. Both are
  functions of the host. A NaN difference is not \<open>0\<close> and is returned as it is.
\<close>

definition compareNotes ::
  "(string \<Rightarrow> int option) \<Rightarrow> (string \<Rightarrow> string \<Rightarrow> int) \<Rightarrow> Note \<Rightarrow> Note \<Rightarrow> int option" where
  "compareNotes getTime localeCompare a b =
     (case (getTime (updatedAt b), getTime (updatedAt a)) of
        (Some tb, Some ta) \<Rightarrow>
          (let diff = tb - ta
           in if diff \<noteq> 0 then Some diff
              else Some (localeCompare (or_else (Some (title a)) []) (or_else (Some (title b)) [])))
      | _ \<Rightarrow> None)"

definition sortNotes ::
  "(string \<Rightarrow> int option) \<Rightarrow> (string \<Rightarrow> string \<Rightarrow> int) \<Rightarrow> Note list \<Rightarrow> Note list" where
  "sortNotes getTime localeCompare notes = array_sort (compareNotes getTime localeCompare) notes"

record options =
  tag :: "string option"
  favorites :: "bool option"
  query :: "string option"

definition listNotes ::
  "(string \<Rightarrow> int option) \<Rightarrow> (string \<Rightarrow> string \<Rightarrow> int) \<Rightarrow> options \<Rightarrow> storage \<Rightarrow> Note list" where
  "listNotes getTime localeCompare opts st =
     (let out0 = readStore_notes st;
          out1 = (if favorites opts = Some True then filter favorite out0 else out0);
          out2 = (case tag opts of
                    None \<Rightarrow> out1
                  | Some tg \<Rightarrow>
                      if tg = [] then out1
                      else (let t = toLowerCase (trim tg)
                            in filter (\<lambda>n. list_ex (\<lambda>x. toLowerCase x = t) (tags n)) out1));
          out3 = (case query opts of
                    None \<Rightarrow> out2
                  | Some qs \<Rightarrow>
                      if qs = [] \<or> trim qs = [] then out2
                      else (let q = toLowerCase (trim qs)
                            in filter (\<lambda>n.
                                 includes_str (toLowerCase (or_else (Some (title n)) [])) q
                                 \<or> includes_str (toLowerCase (or_else (Some (content n)) [])) q) out2))
      in sortNotes getTime localeCompare out3)"

text \<open>
  \<open>Map.prototype.set\<close> on a Map written as the list of its entries in insertion order: a
  key that is there keeps its place.
\<close>

fun map_set :: "'k \<Rightarrow> 'v \<Rightarrow> ('k \<times> 'v) list \<Rightarrow> ('k \<times> 'v) list" where
  "map_set k v [] = [(k, v)]"
| "map_set k v ((k', v') # m) = (if k' = k then (k, v) # m else (k', v') # map_set k v m)"

text \<open>The body of the inner loop of \<open>listTags\<close>.\<close>

definition count_tag :: "(string \<times> nat) list \<Rightarrow> string \<Rightarrow> (string \<times> nat) list" where
  "count_tag m t =
     (let key = trim t
      in if key = [] then m
         else map_set key ((case map_of m key of None \<Rightarrow> 0 | Some c \<Rightarrow> if c = 0 then 0 else c) + 1) m)"

definition listTags :: "(string \<Rightarrow> string \<Rightarrow> int) \<Rightarrow> storage \<Rightarrow> (string \<times> nat) list" where
  "listTags localeCompare st =
     array_sort (\<lambda>a b. Some (localeCompare (fst a) (fst b)))
       (foldl (\<lambda>m n. foldl count_tag m (tags n)) [] (readStore_notes st))"

section \<open>Vocabulary of the properties\<close>

text \<open>
  A comparison function is consistent when it orders its arguments as a total preorder:
  equal to itself, antisymmetric in sign, transitive. The language asks this of
  \<open>localeCompare\<close>.
\<close>

definition consistent :: "('a \<Rightarrow> 'a \<Rightarrow> int) \<Rightarrow> bool" where
  "consistent c \<longleftrightarrow>
     (\<forall>a. c a a = 0) \<and> (\<forall>a b. (c a b < 0) = (0 < c b a)) \<and>
     (\<forall>a b d. c a b \<le> 0 \<longrightarrow> c b d \<le> 0 \<longrightarrow> c a d \<le> 0)"

text \<open>
  A consistent comparison to run the closed examples with: by code units, the shorter
  string first when one is the start of the other.
\<close>

fun codeUnitCompare :: "string \<Rightarrow> string \<Rightarrow> int" where
  "codeUnitCompare [] [] = 0"
| "codeUnitCompare [] (y # ys) = - 1"
| "codeUnitCompare (x # xs) [] = 1"
| "codeUnitCompare (x # xs) (y # ys) =
     (if (of_char x :: nat) < of_char y then - 1
      else if (of_char y :: nat) < of_char x then 1
      else codeUnitCompare xs ys)"

text \<open>
  The times of the two dates that the closed examples use, in milliseconds since the epoch;
  any other text is read as no date.
\<close>

definition exampleTime :: "string \<Rightarrow> int option" where
  "exampleTime = map_of
     [(''2024-01-01T00:00:00.000Z'', 1704067200000),
      (''2024-01-02T00:00:00.000Z'', 1704153600000)]"

text \<open>
  The tag rule in the words of the specification: trim each element, drop the empty ones,
  keep the first occurrence of each value.
\<close>

function first_seen :: "'a list \<Rightarrow> 'a list" where
  "first_seen [] = []"
| "first_seen (x # xs) = x # first_seen (removeAll x xs)"
  by pat_completeness auto
termination
  by (relation "measure length") (auto simp: less_Suc_eq_le)

definition spec_tags :: "string list option \<Rightarrow> string list" where
  "spec_tags v = (case v of
       None \<Rightarrow> []
     | Some ts \<Rightarrow> first_seen (filter (\<lambda>t. t \<noteq> []) (map trim ts)))"

definition tags_ok :: "string list \<Rightarrow> bool" where
  "tags_ok ts \<longleftrightarrow> distinct ts \<and> (\<forall>t\<in>set ts. t \<noteq> [] \<and> trim t = t)"

text \<open>A Note handed to the normalizer: an object that has all seven properties.\<close>

definition as_partial :: "Note \<Rightarrow> partial_note" where
  "as_partial n =
     \<lparr> id_opt = Some (id_note n), title_opt = Some (title n), content_opt = Some (content n),
       tags_opt = Some (tags n), favorite_opt = Some (favorite n),
       createdAt_opt = Some (createdAt n), updatedAt_opt = Some (updatedAt n) \<rparr>"

text \<open>The mutations of the store as commands, and a session as a list of them.\<close>

datatype command =
    Create string string partial_note
  | Update string string string string partial_note
  | Delete string
  | Toggle string string string string

fun exec :: "command \<Rightarrow> storage \<Rightarrow> storage" where
  "exec (Create now uid initial) st = snd (createNote now uid initial st)"
| "exec (Update stamp now uid i flds) st = snd (updateNote stamp now uid i flds st)"
| "exec (Delete i) st = snd (deleteNote i st)"
| "exec (Toggle stamp now uid i) st = snd (toggleFavorite stamp now uid i st)"

definition run :: "command list \<Rightarrow> storage \<Rightarrow> storage" where
  "run cs st = foldl (\<lambda>s c. exec c s) st cs"

definition empty_slot :: storage where
  "empty_slot = \<lparr> slot = None, setItem_calls = 0 \<rparr>"

text \<open>The three filters of \<open>listNotes\<close> in the words of the specification.\<close>

definition favorite_filter :: "options \<Rightarrow> Note \<Rightarrow> bool" where
  "favorite_filter opts n \<longleftrightarrow> (favorites opts = Some True \<longrightarrow> favorite n)"

definition tag_filter :: "options \<Rightarrow> Note \<Rightarrow> bool" where
  "tag_filter opts n \<longleftrightarrow>
     (case tag opts of
        None \<Rightarrow> True
      | Some tg \<Rightarrow> tg = [] \<or> (\<exists>x\<in>set (tags n). toLowerCase x = toLowerCase (trim tg)))"

definition query_filter :: "options \<Rightarrow> Note \<Rightarrow> bool" where
  "query_filter opts n \<longleftrightarrow>
     (case query opts of
        None \<Rightarrow> True
      | Some qs \<Rightarrow>
          (\<exists>pre post. toLowerCase (title n) = pre @ toLowerCase (trim qs) @ post)
          \<or> (\<exists>pre post. toLowerCase (content n) = pre @ toLowerCase (trim qs) @ post))"

text \<open>How often a tag value occurs, after trimming, in the tags of the notes.\<close>

definition occurrences :: "string \<Rightarrow> Note list \<Rightarrow> nat" where
  "occurrences k notes = length (filter (\<lambda>t. trim t = k) (concat (map tags notes)))"

text \<open>A stored note, a slot that holds it, and a parser on a few texts, for the closed examples.\<close>

definition exampleNote :: Note where
  "exampleNote =
     \<lparr> id_note = ''n1'', title = ''Hi'', content = ''text'', tags = [''a'', ''b''],
       favorite = False, createdAt = ''2024-01-01T00:00:00.000Z'',
       updatedAt = ''2024-01-01T00:00:00.000Z'' \<rparr>"

definition exampleStore :: storage where
  "exampleStore = \<lparr> slot = Some [exampleNote], setItem_calls = 0 \<rparr>"

definition exampleParse :: "string \<Rightarrow> json option" where
  \<open>exampleParse s =
     (if s = ''{"notes":[]}'' then Some (JObj [(''notes'', JArr [])])
      else if s = ''{"notes":[null],"v":1}''
        then Some (JObj [(''notes'', JArr [JNull]), (''v'', JNum 1)])
      else if s = ''{"notes":"x"}'' then Some (JObj [(''notes'', JStr ''x'')])
      else if s = ''[]'' then Some (JArr [])
      else if s = ''null'' then Some JNull
      else if s = ''7'' then Some (JNum 7)
      else None)\<close>

text \<open>The count that a Map of counts holds for a key, 0 when the key is not there.\<close>

definition count_of :: "(string \<times> nat) list \<Rightarrow> string \<Rightarrow> nat" where
  "count_of m k = (case map_of m k of None \<Rightarrow> 0 | Some c \<Rightarrow> c)"

section \<open>Auxiliary facts\<close>

lemma dropWhile_rev_fixed:
  assumes "xs = [] \<or> \<not> P (hd xs)"
  shows "dropWhile P (rev (dropWhile P (rev xs))) = rev (dropWhile P (rev xs))"
proof (cases "dropWhile P (rev xs) = []")
  case True
  show ?thesis by (simp only: True rev.simps dropWhile.simps)
next
  case False
  then have ne: "xs \<noteq> []" by auto
  with assms have hx: "\<not> P (hd xs)" by simp
  have "hd xs \<in> set (rev xs)" using ne by simp
  then have "last (dropWhile P (rev xs)) = last (rev xs)" using hx by (rule dropWhile_last)
  then have "hd (rev (dropWhile P (rev xs))) = hd xs" using ne False by (simp add: hd_rev last_rev)
  then show ?thesis using hx by (simp add: dropWhile_eq_self_iff)
qed

lemma trim_idem: "trim (trim s) = trim s"
proof -
  let ?t = "dropWhile is_space (rev (dropWhile is_space s))"
  have "dropWhile is_space s = [] \<or> \<not> is_space (hd (dropWhile is_space s))"
    using hd_dropWhile[of is_space s] by blast
  then have a: "dropWhile is_space (rev ?t) = rev ?t" by (rule dropWhile_rev_fixed)
  have b: "dropWhile is_space ?t = ?t"
    by (cases "?t = []") (auto simp: dropWhile_eq_self_iff dest: hd_dropWhile)
  show ?thesis unfolding trim_def by (simp add: a b)
qed

lemma set_add_set: "set (set_add s x) = insert x (set s)" by (auto simp: set_add_def)
lemma set_add_distinct: "distinct s \<Longrightarrow> distinct (set_add s x)" by (auto simp: set_add_def)

lemma foldl_set_add_distinct: "distinct acc \<Longrightarrow> distinct (foldl set_add acc xs)"
  by (induction xs arbitrary: acc) (auto simp: set_add_distinct)
lemma foldl_set_add_set: "set (foldl set_add acc xs) = set acc \<union> set xs"
  by (induction xs arbitrary: acc) (auto simp: set_add_set)

lemma foldl_set_add_first_seen:
  "foldl set_add acc xs = acc @ first_seen (filter (\<lambda>x. x \<notin> set acc) xs)"
proof (induction xs arbitrary: acc)
  case Nil then show ?case by simp
next
  case (Cons x xs)
  have r: "removeAll x (filter (\<lambda>y. y \<notin> set acc) xs) = filter (\<lambda>y. y \<notin> set (acc @ [x])) xs"
    by (induction xs) auto
  show ?case
  proof (cases "x \<in> set acc")
    case True then show ?thesis using Cons.IH[of acc] by (simp add: set_add_def)
  next
    case False then show ?thesis using Cons.IH[of "acc @ [x]"] r by (simp add: set_add_def)
  qed
qed

lemma new_Set_first_seen: "new_Set xs = first_seen xs"
  using foldl_set_add_first_seen[of "[]" xs] by (simp add: new_Set_def)

lemma foldl_set_add_id: "distinct (acc @ xs) \<Longrightarrow> foldl set_add acc xs = acc @ xs"
  by (induction xs arbitrary: acc) (auto simp: set_add_def)

lemma new_Set_distinct_id: "distinct xs \<Longrightarrow> new_Set xs = xs"
  using foldl_set_add_id[of "[]" xs] by (simp add: new_Set_def)


lemma mset_insert_by: "mset (insert_by cmp x ys) = add_mset x (mset ys)"
  by (induction ys) auto

lemma mset_array_sort: "mset (array_sort cmp xs) = mset xs"
  unfolding array_sort_def by (induction xs) (auto simp: mset_insert_by)

lemma set_insert_by: "set (insert_by cmp x ys) = insert x (set ys)"
  using mset_insert_by[of cmp x ys] by (metis set_mset_add_mset_insert set_mset_mset)

lemma set_array_sort: "set (array_sort cmp xs) = set xs"
  using mset_array_sort[of cmp xs] by (metis set_mset_mset)

lemma sorted_insert_by:
  assumes tot: "\<And>a b. a \<in> S \<Longrightarrow> b \<in> S \<Longrightarrow> sort_compare cmp a b \<le> 0 \<or> sort_compare cmp b a \<le> 0"
    and tr: "\<And>a b d. a \<in> S \<Longrightarrow> b \<in> S \<Longrightarrow> d \<in> S \<Longrightarrow>
               sort_compare cmp a b \<le> 0 \<Longrightarrow> sort_compare cmp b d \<le> 0 \<Longrightarrow> sort_compare cmp a d \<le> 0"
    and xS: "x \<in> S"
  shows "set ys \<subseteq> S \<Longrightarrow> sorted_wrt (\<lambda>a b. sort_compare cmp a b \<le> 0) ys \<Longrightarrow>
         sorted_wrt (\<lambda>a b. sort_compare cmp a b \<le> 0) (insert_by cmp x ys)"
proof (induction ys)
  case Nil then show ?case by simp
next
  case (Cons y ys)
  have yS: "y \<in> S" and ysS: "set ys \<subseteq> S" using Cons.prems(1) by simp_all
  have sy: "\<forall>z\<in>set ys. sort_compare cmp y z \<le> 0"
    and sys: "sorted_wrt (\<lambda>a b. sort_compare cmp a b \<le> 0) ys"
    using Cons.prems(2) by simp_all
  show ?case
  proof (cases "sort_compare cmp x y \<le> 0")
    case True
    have "\<forall>z\<in>set ys. sort_compare cmp x z \<le> 0"
    proof
      fix z assume z: "z \<in> set ys"
      then have zS: "z \<in> S" using ysS by blast
      have "sort_compare cmp y z \<le> 0" using sy z by blast
      then show "sort_compare cmp x z \<le> 0" using tr[OF xS yS zS True] by blast
    qed
    then show ?thesis using True sy sys by simp
  next
    case False
    then have yx: "sort_compare cmp y x \<le> 0" using tot[OF xS yS] by blast
    have ih: "sorted_wrt (\<lambda>a b. sort_compare cmp a b \<le> 0) (insert_by cmp x ys)"
      using Cons.IH[OF ysS sys] .
    have "\<forall>z\<in>set (insert_by cmp x ys). sort_compare cmp y z \<le> 0"
      using yx sy by (simp add: set_insert_by)
    then show ?thesis using False ih by simp
  qed
qed

lemma sorted_array_sort:
  assumes tot: "\<And>a b. a \<in> S \<Longrightarrow> b \<in> S \<Longrightarrow> sort_compare cmp a b \<le> 0 \<or> sort_compare cmp b a \<le> 0"
    and tr: "\<And>a b d. a \<in> S \<Longrightarrow> b \<in> S \<Longrightarrow> d \<in> S \<Longrightarrow>
               sort_compare cmp a b \<le> 0 \<Longrightarrow> sort_compare cmp b d \<le> 0 \<Longrightarrow> sort_compare cmp a d \<le> 0"
  shows "set xs \<subseteq> S \<Longrightarrow> sorted_wrt (\<lambda>a b. sort_compare cmp a b \<le> 0) (array_sort cmp xs)"
proof (induction xs)
  case Nil then show ?case by (simp add: array_sort_def)
next
  case (Cons x xs)
  have xS: "x \<in> S" and xsS: "set xs \<subseteq> S" using Cons.prems by simp_all
  have sub: "set (array_sort cmp xs) \<subseteq> S" using xsS by (simp add: set_array_sort)
  have "sorted_wrt (\<lambda>a b. sort_compare cmp a b \<le> 0) (insert_by cmp x (array_sort cmp xs))"
    using tot tr xS sub Cons.IH[OF xsS] by (rule sorted_insert_by[where S=S])
  then show ?case by (simp add: array_sort_def)
qed

lemma filter_insert_by_neg: "\<not> P x \<Longrightarrow> filter P (insert_by cmp x ys) = filter P ys"
  by (induction ys) auto

lemma filter_insert_by_pos:
  "P x \<Longrightarrow> \<forall>y\<in>set ys. P y \<longrightarrow> sort_compare cmp x y \<le> 0 \<Longrightarrow>
   filter P (insert_by cmp x ys) = x # filter P ys"
  by (induction ys) auto

lemma stable_array_sort:
  assumes "\<forall>x\<in>set xs. \<forall>y\<in>set xs. P x \<and> P y \<longrightarrow> sort_compare cmp x y \<le> 0"
  shows "filter P (array_sort cmp xs) = filter P xs"
  using assms
proof (induction xs)
  case Nil then show ?case by (simp add: array_sort_def)
next
  case (Cons x xs)
  have ih: "filter P (array_sort cmp xs) = filter P xs" using Cons by simp
  show ?case
  proof (cases "P x")
    case False
    then show ?thesis using ih by (simp add: array_sort_def filter_insert_by_neg)
  next
    case True
    have "\<forall>y\<in>set (array_sort cmp xs). P y \<longrightarrow> sort_compare cmp x y \<le> 0"
      using Cons.prems True by (simp add: set_array_sort)
    then have "filter P (insert_by cmp x (array_sort cmp xs)) = x # filter P (array_sort cmp xs)"
      using True by (rule filter_insert_by_pos[rotated])
    then show ?thesis using ih True by (simp add: array_sort_def)
  qed
qed

lemma readStore_encode_store:
  "raw \<noteq> [] \<Longrightarrow> p raw = Some (encode_store ns) \<Longrightarrow>
   readStore p (Inr (Some raw)) = encode_store ns"
  by (simp add: readStore_def readStore_try_def encode_store_def truthy_def prop_notes_def
      isArray_def)

lemma readStore_absent: "readStore p (Inr None) = encode_store []"
  by (simp add: readStore_def readStore_try_def encode_store_def empty_store_def)

lemma or_else_simps [simp]:
  "or_else None d = d" "or_else (Some []) d = d" "s \<noteq> [] \<Longrightarrow> or_else (Some s) d = s"
  by (simp_all add: or_else_def)

lemma or_else_Some_nil: "or_else (Some s) [] = s"
  by (simp add: or_else_def)

lemma count_list_filter_keep:
  "P n \<Longrightarrow> count_list (filter P xs) n = count_list xs n"
  by (induction xs) auto

lemma findIndex_find:
  "find P xs = Some e \<Longrightarrow> \<exists>k. findIndex P xs = Some k \<and> k < length xs \<and> xs ! k = e"
  by (induction xs) (auto split: if_splits)

lemma findIndex_None: "find P xs = None \<Longrightarrow> findIndex P xs = None"
  by (induction xs) (auto split: if_splits)

section \<open>The identifier of a created note\<close>

text \<open>
  C1 (as the code has it). \<open>createNote\<close> hands \<open>initial\<close> to \<open>normalizeNote\<close> unchanged, and
  \<open>normalizeNote\<close> keeps an id that it is given: the created note carries \<open>initial.id\<close> when
  that is a non-empty string, and the identifier that \<open>uid()\<close> generates otherwise.
\<close>

theorem createNote_id:
  "id_note (fst (createNote now uid initial st)) =
     (case id_opt initial of None \<Rightarrow> uid | Some i \<Rightarrow> if i = [] then uid else i)"
  by (simp add: createNote_def normalizeNote_def Let_def or_else_def)

text \<open>Without an id in \<open>initial\<close> the note gets the generated one.\<close>

theorem createNote_id_witness:
  "id_note (fst (createNote ''2024-01-01T00:00:00.000Z'' ''id-k3x9'' no_fields empty_slot))
     = ''id-k3x9''"
  using createNote_id[of "''2024-01-01T00:00:00.000Z''" "''id-k3x9''" no_fields empty_slot]
  by (simp add: no_fields_def)

text \<open>
  C1 as the specification words it, that the id of the created note never is the one the
  caller supplied, fails: \<open>createNote({id: "note-1"})\<close> returns a note whose id is
  \<open>"note-1"\<close>.
\<close>

theorem createNote_fresh_id_counterexample:
  "id_opt (no_fields\<lparr> id_opt := Some ''note-1'' \<rparr>) = Some ''note-1'' \<and>
   id_note (fst (createNote ''2024-01-01T00:00:00.000Z'' ''id-k3x9''
                  (no_fields\<lparr> id_opt := Some ''note-1'' \<rparr>) empty_slot)) = ''note-1''"
  by (simp add: createNote_def normalizeNote_def Let_def no_fields_def)

section \<open>Timestamps of an updated note\<close>

text \<open>
  C2 (as the code has it). For a stored note with the given id and a non-empty \<open>stamp\<close> (an
  ISO timestamp is never empty), \<open>updateNote\<close> returns a note whose \<open>updatedAt\<close> is the fresh
  \<open>stamp\<close>, whatever \<open>fields.updatedAt\<close> says. Its \<open>createdAt\<close> is that of the stored note
  when \<open>fields\<close> has no \<open>createdAt\<close>; a \<open>createdAt\<close> in \<open>fields\<close> replaces the stored one,
  and an empty \<open>createdAt\<close>, stored or supplied, becomes the current time.
\<close>

theorem updateNote_timestamps:
  assumes "getNote i st = Some e" and "stamp \<noteq> []"
  shows "\<exists>r. fst (updateNote stamp now uid i flds st) = Some r \<and> updatedAt r = stamp \<and>
           createdAt r =
             (case createdAt_opt flds of
                None \<Rightarrow> if createdAt e = [] then now else createdAt e
              | Some c \<Rightarrow> if c = [] then now else c)"
proof -
  obtain k where k: "findIndex (\<lambda>n. id_note n = i) (readStore_notes st) = Some k"
    and e: "readStore_notes st ! k = e"
    using findIndex_find[of "\<lambda>n. id_note n = i" "readStore_notes st" e] assms(1)
    by (auto simp: getNote_def)
  show ?thesis using k e assms(2)
    by (simp add: updateNote_def Let_def normalizeNote_def spread_def or_else_def
        split: option.splits)
qed

text \<open>An update that sets the title and tries to set \<open>updatedAt\<close>.\<close>

theorem updateNote_timestamps_witness:
  "getNote ''n1'' exampleStore = Some exampleNote \<and>
   (\<exists>r. fst (updateNote ''2024-01-02T00:00:00.000Z'' ''2024-01-02T00:00:00.001Z'' ''id-k3x9'' ''n1''
              (no_fields\<lparr> title_opt := Some ''new'', updatedAt_opt := Some ''1999-12-31T00:00:00.000Z'' \<rparr>)
              exampleStore) = Some r
        \<and> updatedAt r = ''2024-01-02T00:00:00.000Z'' \<and> createdAt r = ''2024-01-01T00:00:00.000Z'')"
proof -
  have g: "getNote ''n1'' exampleStore = Some exampleNote"
    by (simp add: getNote_def exampleStore_def exampleNote_def readStore_notes_def)
  have s: "''2024-01-02T00:00:00.000Z'' \<noteq> []" by simp
  show ?thesis
    using g updateNote_timestamps[OF g s, of "''2024-01-02T00:00:00.001Z''" "''id-k3x9''"
        "no_fields\<lparr> title_opt := Some ''new'', updatedAt_opt := Some ''1999-12-31T00:00:00.000Z'' \<rparr>"]
    by (simp add: no_fields_def exampleNote_def)
qed

text \<open>
  C2 as the specification words it, that \<open>createdAt\<close> of the stored note survives every
  update, fails: \<open>updateNote("n1", {createdAt: "1999-12-31T00:00:00.000Z"})\<close> returns a note
  with that \<open>createdAt\<close>, while the stored note had \<open>"2024-01-01T00:00:00.000Z"\<close>.
\<close>

theorem updateNote_createdAt_counterexample:
  "getNote ''n1'' exampleStore = Some exampleNote \<and>
   createdAt exampleNote = ''2024-01-01T00:00:00.000Z'' \<and>
   map_option createdAt
     (fst (updateNote ''2024-01-02T00:00:00.000Z'' ''2024-01-02T00:00:00.001Z'' ''id-k3x9'' ''n1''
            (no_fields\<lparr> createdAt_opt := Some ''1999-12-31T00:00:00.000Z'' \<rparr>) exampleStore))
     = Some ''1999-12-31T00:00:00.000Z''"
  by (simp add: getNote_def exampleStore_def exampleNote_def readStore_notes_def updateNote_def
      Let_def normalizeNote_def spread_def no_fields_def)

section \<open>Normalization\<close>

lemma filter_trim_id:
  "\<forall>t\<in>set xs. trim t = t \<and> t \<noteq> [] \<Longrightarrow> filter (\<lambda>t. t \<noteq> []) (map trim xs) = xs"
  by (induction xs) simp_all

lemma trimmed_nonempty:
  "t \<in> set (filter (\<lambda>t. t \<noteq> []) (map trim ts)) \<Longrightarrow> t \<noteq> [] \<and> trim t = t"
proof -
  assume "t \<in> set (filter (\<lambda>t. t \<noteq> []) (map trim ts))"
  then obtain x where "t = trim x" and "t \<noteq> []" by auto
  then show ?thesis using trim_idem[of x] by simp
qed

lemma normalize_tags_ok:
  "tags_ok (new_Set (filter (\<lambda>t. t \<noteq> []) (map trim ts)))"
proof -
  let ?fs = "filter (\<lambda>t. t \<noteq> []) (map trim ts)"
  have d: "distinct (new_Set ?fs)" by (simp add: new_Set_def foldl_set_add_distinct)
  have s: "set (new_Set ?fs) = set ?fs"
    by (simp add: new_Set_def foldl_set_add_set)
  have "\<forall>t\<in>set (new_Set ?fs). t \<noteq> [] \<and> trim t = t"
    using trimmed_nonempty[of _ ts] s by blast
  then show ?thesis using d unfolding tags_ok_def by blast
qed

lemma tags_ok_fixed:
  assumes "tags_ok ts"
  shows "new_Set (filter (\<lambda>t. t \<noteq> []) (map trim ts)) = ts"
proof -
  have "filter (\<lambda>t. t \<noteq> []) (map trim ts) = ts"
    using assms by (intro filter_trim_id) (simp add: tags_ok_def)
  then show ?thesis using assms by (simp add: new_Set_distinct_id tags_ok_def)
qed

lemma normalizeNote_tags_ok: "tags_ok (tags (normalizeNote now uid n))"
  by (cases "tags_opt n") (simp_all add: normalizeNote_def normalize_tags_ok, simp add: tags_ok_def)

text \<open>
  C7. Normalization is idempotent: a note that the normalizer has produced, with a clock
  and an id generator that return non-empty strings, is returned unchanged when it is
  normalized again, at any later time and with any other generated id.
\<close>

theorem normalizeNote_idempotent:
  assumes "now \<noteq> []" and "uid \<noteq> []"
  shows "normalizeNote now' uid' (as_partial (normalizeNote now uid n)) = normalizeNote now uid n"
proof -
  let ?m = "normalizeNote now uid n"
  have i: "id_note ?m \<noteq> []" using assms(2) by (simp add: normalizeNote_def or_else_def split: option.splits)
  have c: "createdAt ?m \<noteq> []" using assms(1) by (simp add: normalizeNote_def or_else_def split: option.splits)
  have u: "updatedAt ?m \<noteq> []" using assms(1) by (simp add: normalizeNote_def or_else_def split: option.splits)
  have t: "trim (title ?m) = title ?m" by (simp add: normalizeNote_def trim_idem)
  have g: "new_Set (filter (\<lambda>t. t \<noteq> []) (map trim (tags ?m))) = tags ?m"
    using normalizeNote_tags_ok by (rule tags_ok_fixed)
  have "normalizeNote now' uid' (as_partial ?m) =
        \<lparr> id_note = id_note ?m, title = title ?m, content = content ?m, tags = tags ?m,
          favorite = favorite ?m, createdAt = createdAt ?m, updatedAt = updatedAt ?m \<rparr>"
    using i c u t g by (simp add: normalizeNote_def[of now' uid'] as_partial_def or_else_def)
  then show ?thesis by simp
qed

text \<open>The note of the end-to-end scenario, normalized a second time the day after.\<close>

theorem normalizeNote_idempotent_witness:
  "''2024-01-01T00:00:00.000Z'' \<noteq> [] \<and> ''id-k3x9'' \<noteq> [] \<and>
   normalizeNote ''2024-01-02T00:00:00.000Z'' ''id-zzzz''
      (as_partial (normalizeNote ''2024-01-01T00:00:00.000Z'' ''id-k3x9''
         (no_fields\<lparr> title_opt := Some '' Hi '', tags_opt := Some [''a'', ''a'', '' b''] \<rparr>)))
    = \<lparr> id_note = ''id-k3x9'', title = ''Hi'', content = [], tags = [''a'', ''b''],
        favorite = False, createdAt = ''2024-01-01T00:00:00.000Z'',
        updatedAt = ''2024-01-01T00:00:00.000Z'' \<rparr>"
proof -
  have a: "''2024-01-01T00:00:00.000Z'' \<noteq> []" and b: "''id-k3x9'' \<noteq> []" by simp_all
  have "normalizeNote ''2024-01-01T00:00:00.000Z'' ''id-k3x9''
         (no_fields\<lparr> title_opt := Some '' Hi '', tags_opt := Some [''a'', ''a'', '' b''] \<rparr>)
    = \<lparr> id_note = ''id-k3x9'', title = ''Hi'', content = [], tags = [''a'', ''b''],
        favorite = False, createdAt = ''2024-01-01T00:00:00.000Z'',
        updatedAt = ''2024-01-01T00:00:00.000Z'' \<rparr>"
    by (simp add: normalizeNote_def no_fields_def trim_def is_space_def new_Set_def set_add_def)
  then show ?thesis
    using a b normalizeNote_idempotent[OF a b, of "''2024-01-02T00:00:00.000Z''" "''id-zzzz''"
        "no_fields\<lparr> title_opt := Some '' Hi '', tags_opt := Some [''a'', ''a'', '' b''] \<rparr>"]
    by simp
qed

section \<open>Deleting\<close>

text \<open>
  C9. \<open>deleteNote\<close> returns true exactly when a stored note has the id; and after a
  \<open>deleteNote(id)\<close> that returned true, \<open>getNote(id)\<close> finds nothing and a second
  \<open>deleteNote(id)\<close> returns false.
\<close>

theorem deleteNote_then_get:
  "(fst (deleteNote i st) \<longleftrightarrow> (\<exists>n\<in>set (readStore_notes st). id_note n = i)) \<and>
   (fst (deleteNote i st) \<longrightarrow>
      getNote i (snd (deleteNote i st)) = None \<and> \<not> fst (deleteNote i (snd (deleteNote i st))))"
proof -
  let ?P = "\<lambda>n. id_note n \<noteq> i"
  have l: "length (filter ?P xs) < length xs \<longleftrightarrow> (\<exists>n\<in>set xs. id_note n = i)" for xs
    by (induction xs) (auto simp: less_Suc_eq_le)
  have r: "readStore_notes (snd (deleteNote i st)) = filter ?P (readStore_notes st)"
    by (simp add: deleteNote_def Let_def writeStore_def readStore_notes_def)
  have f: "fst (deleteNote i s) \<longleftrightarrow> (\<exists>n\<in>set (readStore_notes s). id_note n = i)" for s
    using l[of "readStore_notes s"] by (simp add: deleteNote_def Let_def)
  have g: "getNote i (snd (deleteNote i st)) = None"
    unfolding getNote_def r by (simp add: find_None_iff)
  have "\<not> fst (deleteNote i (snd (deleteNote i st)))"
    unfolding f r by simp
  then show ?thesis using f g by blast
qed

text \<open>Deleting the one stored note.\<close>

theorem deleteNote_then_get_witness:
  "fst (deleteNote ''n1'' exampleStore) \<and>
   getNote ''n1'' (snd (deleteNote ''n1'' exampleStore)) = None \<and>
   \<not> fst (deleteNote ''n1'' (snd (deleteNote ''n1'' exampleStore)))"
proof -
  have "fst (deleteNote ''n1'' exampleStore)"
    by (simp add: deleteNote_def Let_def exampleStore_def exampleNote_def readStore_notes_def)
  then show ?thesis using deleteNote_then_get[of "''n1''" exampleStore] by blast
qed

text \<open>
  C10. After \<open>deleteNote(id)\<close> the slot holds exactly the notes whose id differs from
  \<open>id\<close>, in the order they had: every note with the id is gone, the others are untouched;
  and the slot is written once, also when no note had the id.
\<close>

theorem deleteNote_persists_filter:
  "slot (snd (deleteNote i st)) = Some (filter (\<lambda>n. id_note n \<noteq> i) (readStore_notes st)) \<and>
   readStore_notes (snd (deleteNote i st)) = filter (\<lambda>n. id_note n \<noteq> i) (readStore_notes st) \<and>
   (\<forall>n\<in>set (readStore_notes (snd (deleteNote i st))). id_note n \<noteq> i) \<and>
   (\<forall>n. id_note n \<noteq> i \<longrightarrow>
      count_list (readStore_notes (snd (deleteNote i st))) n = count_list (readStore_notes st) n) \<and>
   setItem_calls (snd (deleteNote i st)) = Suc (setItem_calls st)"
proof -
  have r: "readStore_notes (snd (deleteNote i st)) = filter (\<lambda>n. id_note n \<noteq> i) (readStore_notes st)"
    by (simp add: deleteNote_def Let_def writeStore_def readStore_notes_def)
  have s: "slot (snd (deleteNote i st)) = Some (filter (\<lambda>n. id_note n \<noteq> i) (readStore_notes st))"
    by (simp add: deleteNote_def Let_def writeStore_def)
  have c: "setItem_calls (snd (deleteNote i st)) = Suc (setItem_calls st)"
    by (simp add: deleteNote_def Let_def writeStore_def)
  have a: "\<forall>n\<in>set (readStore_notes (snd (deleteNote i st))). id_note n \<noteq> i"
    unfolding r by simp
  have k: "\<forall>n. id_note n \<noteq> i \<longrightarrow>
      count_list (readStore_notes (snd (deleteNote i st))) n = count_list (readStore_notes st) n"
    unfolding r by (simp add: count_list_filter_keep)
  show ?thesis using s r a k c by (intro conjI)
qed

text \<open>
  No note matches and the slot is written all the same; two notes share the id and both go;
  an empty slot is written as the empty collection.
\<close>

theorem deleteNote_persists_filter_witness:
  "slot (snd (deleteNote ''n2'' exampleStore)) = Some [exampleNote] \<and>
   setItem_calls (snd (deleteNote ''n2'' exampleStore)) = 1 \<and>
   slot (snd (deleteNote ''n1'' (exampleStore\<lparr> slot := Some [exampleNote, exampleNote\<lparr> id_note := ''n2'' \<rparr>, exampleNote] \<rparr>)))
     = Some [exampleNote\<lparr> id_note := ''n2'' \<rparr>] \<and>
   slot (snd (deleteNote ''n1'' empty_slot)) = Some []"
  using deleteNote_persists_filter[of "''n2''" exampleStore]
    deleteNote_persists_filter[of "''n1''" "exampleStore\<lparr> slot := Some [exampleNote, exampleNote\<lparr> id_note := ''n2'' \<rparr>, exampleNote] \<rparr>"]
    deleteNote_persists_filter[of "''n1''" empty_slot]
  by (simp add: exampleStore_def exampleNote_def readStore_notes_def empty_slot_def)

section \<open>Reading the slot\<close>

text \<open>
  C3. \<open>readStore\<close> returns the empty envelope \<open>{notes: []}\<close> when the body of its \<open>try\<close>
  raises, when reading the slot raises, when the slot is absent, when the text does not
  parse, when it parses to something that is no object with own properties (null, a
  boolean, a number, a string, an array), and when the \<open>notes\<close> of the parsed object is
  missing or no array. When the text parses to an object whose \<open>notes\<close> is an array, that
  object is returned. No exception leaves \<open>readStore\<close>, and what it returns always is an
  object whose \<open>notes\<close> is an array.
\<close>

theorem readStore_never_raises:
  "(\<forall>e. readStore_try p g = Inl e \<longrightarrow> readStore p g = empty_store) \<and>
   (\<forall>e. g = Inl e \<longrightarrow> readStore p g = empty_store) \<and>
   (g = Inr None \<longrightarrow> readStore p g = empty_store) \<and>
   (\<forall>raw. g = Inr (Some raw) \<and> p raw = None \<longrightarrow> readStore p g = empty_store) \<and>
   (\<forall>raw v. g = Inr (Some raw) \<and> p raw = Some v \<and> (\<forall>fs. v \<noteq> JObj fs)
        \<longrightarrow> readStore p g = empty_store) \<and>
   (\<forall>raw fs. g = Inr (Some raw) \<and> p raw = Some (JObj fs)
        \<and> (\<forall>ns. map_of fs ''notes'' \<noteq> Some (JArr ns))
        \<longrightarrow> readStore p g = empty_store) \<and>
   (\<forall>raw fs ns. g = Inr (Some raw) \<and> raw \<noteq> [] \<and> p raw = Some (JObj fs)
        \<and> map_of fs ''notes'' = Some (JArr ns)
        \<longrightarrow> readStore p g = JObj fs) \<and>
   (\<exists>fs ns. readStore p g = JObj fs \<and> map_of fs ''notes'' = Some (JArr ns))"
proof (intro conjI allI impI)
  fix e assume "readStore_try p g = Inl e"
  then show "readStore p g = empty_store" by (simp add: readStore_def)
next
  fix e assume "g = Inl e"
  then show "readStore p g = empty_store" by (simp add: readStore_def readStore_try_def)
next
  assume "g = Inr None"
  then show "readStore p g = empty_store" by (simp add: readStore_def readStore_try_def)
next
  fix raw assume "g = Inr (Some raw) \<and> p raw = None"
  then show "readStore p g = empty_store" by (simp add: readStore_def readStore_try_def)
next
  fix raw v assume "g = Inr (Some raw) \<and> p raw = Some v \<and> (\<forall>fs. v \<noteq> JObj fs)"
  then show "readStore p g = empty_store"
    by (cases v)
      (simp_all add: readStore_def readStore_try_def truthy_def prop_notes_def isArray_def)
next
  fix raw fs
  assume "g = Inr (Some raw) \<and> p raw = Some (JObj fs)
            \<and> (\<forall>ns. map_of fs ''notes'' \<noteq> Some (JArr ns))"
  then show "readStore p g = empty_store"
    by (auto simp: readStore_def readStore_try_def truthy_def prop_notes_def isArray_def
        split: option.splits json.splits)
next
  fix raw fs ns
  assume "g = Inr (Some raw) \<and> raw \<noteq> [] \<and> p raw = Some (JObj fs)
            \<and> map_of fs ''notes'' = Some (JArr ns)"
  then show "readStore p g = JObj fs"
    by (simp add: readStore_def readStore_try_def truthy_def prop_notes_def isArray_def)
next
  show "\<exists>fs ns. readStore p g = JObj fs \<and> map_of fs ''notes'' = Some (JArr ns)"
    by (auto simp: readStore_def readStore_try_def truthy_def prop_notes_def isArray_def
        empty_store_def split: sum.splits option.splits json.splits if_splits)
qed

text \<open>
  A text that does not parse (the body raises a SyntaxError, the caller gets the empty
  envelope), a slot that cannot be read, an absent slot, a number, an array, null, an
  object whose \<open>notes\<close> is a string; and an object whose \<open>notes\<close> is an array, returned with
  its other property and with the null among its notes.
\<close>

theorem readStore_never_raises_witness:
  \<open>readStore_try exampleParse (Inr (Some ''{notes'')) = Inl SyntaxError \<and>
   readStore exampleParse (Inr (Some ''{notes'')) = empty_store \<and>
   readStore exampleParse (Inl SecurityError) = empty_store \<and>
   readStore exampleParse (Inr None) = empty_store \<and>
   readStore exampleParse (Inr (Some ''7'')) = empty_store \<and>
   readStore exampleParse (Inr (Some ''[]'')) = empty_store \<and>
   readStore exampleParse (Inr (Some ''null'')) = empty_store \<and>
   readStore exampleParse (Inr (Some ''{"notes":"x"}'')) = empty_store \<and>
   readStore exampleParse (Inr (Some ''{"notes":[null],"v":1}''))
     = JObj [(''notes'', JArr [JNull]), (''v'', JNum 1)]\<close>
  using readStore_never_raises[of exampleParse \<open>Inr (Some ''{notes'')\<close>]
    readStore_never_raises[of exampleParse \<open>Inl SecurityError\<close>]
    readStore_never_raises[of exampleParse \<open>Inr None\<close>]
    readStore_never_raises[of exampleParse \<open>Inr (Some ''7'')\<close>]
    readStore_never_raises[of exampleParse \<open>Inr (Some ''[]'')\<close>]
    readStore_never_raises[of exampleParse \<open>Inr (Some ''null'')\<close>]
    readStore_never_raises[of exampleParse \<open>Inr (Some ''{"notes":"x"}'')\<close>]
    readStore_never_raises[of exampleParse \<open>Inr (Some ''{"notes":[null],"v":1}'')\<close>]
  by (simp add: exampleParse_def readStore_try_def)

section \<open>The tag invariant\<close>

lemma spec_tags_refines: "tags (normalizeNote now uid n) = spec_tags (tags_opt n)"
  by (simp add: normalizeNote_def spec_tags_def new_Set_first_seen split: option.splits)

lemma createNote_notes:
  "readStore_notes (snd (createNote now uid initial st)) =
     readStore_notes st @ [normalizeNote now uid initial]"
  by (simp add: createNote_def Let_def writeStore_def readStore_notes_def)

lemma updateNote_notes:
  "set (readStore_notes (snd (updateNote stamp now uid i flds st)))
     \<subseteq> set (readStore_notes st) \<union> {m. \<exists>now' uid' p. m = normalizeNote now' uid' p}"
proof (cases "findIndex (\<lambda>n. id_note n = i) (readStore_notes st)")
  case None
  then show ?thesis by (simp add: updateNote_def Let_def)
next
  case (Some k)
  let ?m = "normalizeNote now uid
              ((spread (readStore_notes st ! k) flds)\<lparr> id_opt := Some i, updatedAt_opt := Some stamp \<rparr>)"
  have "readStore_notes (snd (updateNote stamp now uid i flds st)) = (readStore_notes st)[k := ?m]"
    using Some by (simp add: updateNote_def Let_def writeStore_def readStore_notes_def)
  moreover have "set ((readStore_notes st)[k := ?m]) \<subseteq> insert ?m (set (readStore_notes st))"
    by (rule set_update_subset_insert)
  ultimately show ?thesis by auto
qed

lemma deleteNote_notes:
  "readStore_notes (snd (deleteNote i st)) = filter (\<lambda>n. id_note n \<noteq> i) (readStore_notes st)"
  by (simp add: deleteNote_def Let_def writeStore_def readStore_notes_def)

lemma exec_tags_ok:
  assumes "\<forall>m\<in>set (readStore_notes st). tags_ok (tags m)"
  shows "\<forall>m\<in>set (readStore_notes (exec c st)). tags_ok (tags m)"
proof (cases c)
  case (Create now uid initial)
  then show ?thesis using assms by (auto simp: createNote_notes normalizeNote_tags_ok)
next
  case (Update stamp now uid i flds)
  then show ?thesis using assms updateNote_notes[of stamp now uid i flds st]
    by (auto simp: normalizeNote_tags_ok)
next
  case (Delete i)
  then show ?thesis using assms by (simp add: deleteNote_notes)
next
  case (Toggle stamp now uid i)
  show ?thesis
  proof (cases "getNote i st")
    case None
    then show ?thesis using assms Toggle by (simp add: toggleFavorite_def)
  next
    case (Some e)
    then show ?thesis
      using assms Toggle
        updateNote_notes[of stamp now uid i "no_fields\<lparr> favorite_opt := Some (\<not> favorite e) \<rparr>" st]
      by (auto simp: toggleFavorite_def normalizeNote_tags_ok)
  qed
qed

lemma run_tags_ok:
  "\<forall>m\<in>set (readStore_notes st). tags_ok (tags m) \<Longrightarrow>
   \<forall>m\<in>set (readStore_notes (run cs st)). tags_ok (tags m)"
  unfolding run_def
proof (induction cs arbitrary: st)
  case Nil then show ?case by simp
next
  case (Cons c cs)
  have "\<forall>m\<in>set (readStore_notes (exec c st)). tags_ok (tags m)"
    using Cons.prems by (rule exec_tags_ok)
  then show ?case using Cons.IH[of "exec c st"] by simp
qed

text \<open>
  C6. For every input the tags of the normalized note are what the specification's rule
  gives (each element trimmed, the empty ones dropped, the first occurrence of each value
  kept), so they hold no value twice, no empty string and only trimmed values; without a
  tags array in the input they are empty. Every mutation of the store puts only normalized
  notes into the collection: when all notes of the collection satisfy the tag invariant,
  they do so after any session of mutations, and they do in every collection that a
  session builds from an empty slot.
\<close>

theorem normalizeNote_tags_invariant:
  "tags (normalizeNote now uid n) = spec_tags (tags_opt n) \<and>
   distinct (tags (normalizeNote now uid n)) \<and>
   [] \<notin> set (tags (normalizeNote now uid n)) \<and>
   (\<forall>t\<in>set (tags (normalizeNote now uid n)). trim t = t) \<and>
   (tags_opt n = None \<longrightarrow> tags (normalizeNote now uid n) = []) \<and>
   ((\<forall>m\<in>set (readStore_notes st). tags_ok (tags m)) \<longrightarrow>
      (\<forall>m\<in>set (readStore_notes (run cs st)). tags_ok (tags m))) \<and>
   (\<forall>m\<in>set (readStore_notes (run cs empty_slot)). distinct (tags m) \<and> [] \<notin> set (tags m))"
proof -
  have ok: "tags_ok (tags (normalizeNote now uid n))" by (rule normalizeNote_tags_ok)
  have e: "\<forall>m\<in>set (readStore_notes empty_slot). tags_ok (tags m)"
    by (simp add: empty_slot_def readStore_notes_def)
  have r: "\<forall>m\<in>set (readStore_notes (run cs empty_slot)). tags_ok (tags m)"
    using e by (rule run_tags_ok)
  have n: "tags_opt n = None \<longrightarrow> tags (normalizeNote now uid n) = []"
    by (simp add: normalizeNote_def)
  show ?thesis using ok r n spec_tags_refines[of now uid n] run_tags_ok[of st cs]
    unfolding tags_ok_def by blast
qed

text \<open>
  The array \<open>["a", " a", "b"]\<close> gives \<open>["a", "b"]\<close>; no tags give none; and a session
  that creates a note, replaces the tags of the stored one and toggles a favorite.
\<close>

theorem normalizeNote_tags_invariant_witness:
  "tags (normalizeNote ''2024-01-01T00:00:00.000Z'' ''id-k3x9''
           (no_fields\<lparr> tags_opt := Some [''a'', '' a'', ''b''] \<rparr>)) = [''a'', ''b''] \<and>
   spec_tags (Some [''a'', '' a'', ''b'']) = [''a'', ''b''] \<and>
   tags (normalizeNote ''2024-01-01T00:00:00.000Z'' ''id-k3x9'' no_fields) = [] \<and>
   list_all (\<lambda>m. tags_ok (tags m)) (readStore_notes exampleStore) \<and>
   map tags (readStore_notes (run
      [Create ''2024-01-01T00:00:00.000Z'' ''id-1''
         (no_fields\<lparr> tags_opt := Some [''a'', ''a'', '' b''] \<rparr>),
       Update ''2024-01-02T00:00:00.000Z'' ''2024-01-02T00:00:00.000Z'' ''id-3'' ''n1''
         (no_fields\<lparr> tags_opt := Some ['' y '', [], ''y'', ''x''] \<rparr>),
       Toggle ''2024-01-03T00:00:00.000Z'' ''2024-01-03T00:00:00.000Z'' ''id-4'' ''id-1'']
      exampleStore)) = [[''y'', ''x''], [''a'', ''b'']] \<and>
   list_all (\<lambda>m. tags_ok (tags m)) (readStore_notes (run
      [Create ''2024-01-01T00:00:00.000Z'' ''id-1''
         (no_fields\<lparr> tags_opt := Some [''a'', ''a'', '' b''] \<rparr>),
       Update ''2024-01-02T00:00:00.000Z'' ''2024-01-02T00:00:00.000Z'' ''id-3'' ''n1''
         (no_fields\<lparr> tags_opt := Some ['' y '', [], ''y'', ''x''] \<rparr>),
       Toggle ''2024-01-03T00:00:00.000Z'' ''2024-01-03T00:00:00.000Z'' ''id-4'' ''id-1'']
      exampleStore))"
proof -
  let ?cs = "[Create ''2024-01-01T00:00:00.000Z'' ''id-1''
         (no_fields\<lparr> tags_opt := Some [''a'', ''a'', '' b''] \<rparr>),
       Update ''2024-01-02T00:00:00.000Z'' ''2024-01-02T00:00:00.000Z'' ''id-3'' ''n1''
         (no_fields\<lparr> tags_opt := Some ['' y '', [], ''y'', ''x''] \<rparr>),
       Toggle ''2024-01-03T00:00:00.000Z'' ''2024-01-03T00:00:00.000Z'' ''id-4'' ''id-1'']"
  let ?n = "no_fields\<lparr> tags_opt := Some [''a'', '' a'', ''b''] \<rparr>"
  note inst = normalizeNote_tags_invariant[of "''2024-01-01T00:00:00.000Z''" "''id-k3x9''" ?n
      exampleStore ?cs]
  have s: "spec_tags (Some [''a'', '' a'', ''b'']) = [''a'', ''b'']"
    by (simp add: spec_tags_def trim_def is_space_def)
  have t: "tags (normalizeNote ''2024-01-01T00:00:00.000Z'' ''id-k3x9'' ?n) = [''a'', ''b'']"
    using inst s by (simp add: no_fields_def)
  have e: "tags (normalizeNote ''2024-01-01T00:00:00.000Z'' ''id-k3x9'' no_fields) = []"
    using normalizeNote_tags_invariant[of "''2024-01-01T00:00:00.000Z''" "''id-k3x9''" no_fields
        exampleStore "[]"]
    by (simp add: no_fields_def spec_tags_def)
  have h: "\<forall>m\<in>set (readStore_notes exampleStore). tags_ok (tags m)"
    by (simp add: exampleStore_def exampleNote_def readStore_notes_def tags_ok_def trim_def
        is_space_def)
  have r: "\<forall>m\<in>set (readStore_notes (run ?cs exampleStore)). tags_ok (tags m)"
    using inst h by blast
  have h': "list_all (\<lambda>m. tags_ok (tags m)) (readStore_notes exampleStore)"
    using h by (simp only: list_all_iff)
  have r': "list_all (\<lambda>m. tags_ok (tags m)) (readStore_notes (run ?cs exampleStore))"
    using r by (simp only: list_all_iff)
  have a: "map tags (readStore_notes (run ?cs exampleStore)) = [[''y'', ''x''], [''a'', ''b'']]"
    by code_simp
  show ?thesis using t s e h' a r' by (intro conjI)
qed

section \<open>Listing\<close>

lemma take_prefix_iff: "take (length q) s = q \<longleftrightarrow> (\<exists>post. s = q @ post)"
proof
  assume "take (length q) s = q"
  then have "s = q @ drop (length q) s" by (metis append_take_drop_id)
  then show "\<exists>post. s = q @ post" ..
next
  assume "\<exists>post. s = q @ post"
  then show "take (length q) s = q" by auto
qed

lemma includes_str_iff: "includes_str s q \<longleftrightarrow> (\<exists>pre post. s = pre @ q @ post)"
proof (induction s)
  case Nil
  show ?case by simp
next
  case (Cons c cs)
  have "(\<exists>pre post. c # cs = pre @ q @ post) \<longleftrightarrow>
        (\<exists>post. c # cs = q @ post) \<or> (\<exists>pre post. cs = pre @ q @ post)"
  proof
    assume "\<exists>pre post. c # cs = pre @ q @ post"
    then obtain pre post where e: "c # cs = pre @ q @ post" by blast
    show "(\<exists>post. c # cs = q @ post) \<or> (\<exists>pre post. cs = pre @ q @ post)"
    proof (cases pre)
      case Nil then show ?thesis using e by auto
    next
      case (Cons p ps) then show ?thesis using e by auto
    qed
  next
    assume "(\<exists>post. c # cs = q @ post) \<or> (\<exists>pre post. cs = pre @ q @ post)"
    then show "\<exists>pre post. c # cs = pre @ q @ post"
    proof
      assume "\<exists>post. c # cs = q @ post"
      then obtain post where "c # cs = [] @ q @ post" by auto
      then show ?thesis by blast
    next
      assume "\<exists>pre post. cs = pre @ q @ post"
      then obtain pre post where "c # cs = (c # pre) @ q @ post" by auto
      then show ?thesis by blast
    qed
  qed
  then show ?case using Cons.IH take_prefix_iff[of q "c # cs"] by simp
qed

lemma trim_Nil [simp]: "trim [] = []"
  by (simp add: trim_def)

lemma listNotes_filter:
  "listNotes g lc opts st =
     sortNotes g lc
       (filter (\<lambda>n. favorite_filter opts n \<and> tag_filter opts n \<and> query_filter opts n)
          (readStore_notes st))"
proof -
  define out0 where "out0 = readStore_notes st"
  define out1 where "out1 = (if favorites opts = Some True then filter favorite out0 else out0)"
  define out2 where "out2 = (case tag opts of
                    None \<Rightarrow> out1
                  | Some tg \<Rightarrow>
                      if tg = [] then out1
                      else (let t = toLowerCase (trim tg)
                            in filter (\<lambda>n. list_ex (\<lambda>x. toLowerCase x = t) (tags n)) out1))"
  define out3 where "out3 = (case query opts of
                    None \<Rightarrow> out2
                  | Some qs \<Rightarrow>
                      if qs = [] \<or> trim qs = [] then out2
                      else (let q = toLowerCase (trim qs)
                            in filter (\<lambda>n.
                                 includes_str (toLowerCase (or_else (Some (title n)) [])) q
                                 \<or> includes_str (toLowerCase (or_else (Some (content n)) [])) q) out2))"
  have f1: "out1 = filter (favorite_filter opts) out0"
    unfolding out1_def by (simp add: favorite_filter_def[abs_def])
  have f2: "out2 = filter (tag_filter opts) out1"
    unfolding out2_def
    by (cases "tag opts") (simp_all add: tag_filter_def[abs_def] list_ex_iff Let_def)
  have f3: "out3 = filter (query_filter opts) out2"
  proof (cases "query opts")
    case None then show ?thesis unfolding out3_def by (simp add: query_filter_def[abs_def])
  next
    case (Some qs)
    show ?thesis
    proof (cases "qs = [] \<or> trim qs = []")
      case True
      then have t: "trim qs = []" by auto
      have "\<exists>pre post. s = pre @ post" for s :: string
        by (rule exI[of _ "[]"]) simp
      then have "query_filter opts n" for n
        using Some t by (simp add: query_filter_def toLowerCase_def)
      then show ?thesis using Some True unfolding out3_def by simp
    next
      case False
      then show ?thesis using Some unfolding out3_def
        by (simp add: query_filter_def[abs_def] includes_str_iff or_else_Some_nil Let_def)
    qed
  qed
  have "listNotes g lc opts st = sortNotes g lc out3"
    unfolding out3_def out2_def out1_def out0_def by (simp add: listNotes_def Let_def)
  moreover have "out3 = filter (\<lambda>n. favorite_filter opts n \<and> tag_filter opts n \<and> query_filter opts n) out0"
    by (simp add: f3 f2 f1 conj_commute conj_left_commute)
  ultimately show ?thesis by (simp add: out0_def)
qed

lemma sortNotes_mset: "mset (sortNotes g lc xs) = mset xs"
  by (simp add: sortNotes_def mset_array_sort)

lemma sortNotes_single: "sortNotes g lc [x] = [x]"
  by (simp add: sortNotes_def array_sort_def)

text \<open>
  C4. \<open>listNotes\<close> returns, sorted, exactly the stored notes that pass all three filters
  at once. \<open>favorites: true\<close> lets the favorite notes pass; a tag option (one that is not
  the empty string, which counts as no option) lets the notes pass that have a tag equal,
  after lowercasing, to the trimmed and lowercased option; a query lets the notes pass
  whose lowercased title or content contains the trimmed and lowercased query. With notes
  A (tag x, favorite), B (tag x, no favorite) and C (tag y, favorite),
  \<open>listNotes({tag: "x", favorites: true})\<close> is \<open>[A]\<close>.
\<close>

theorem listNotes_filters_conjoin:
  "listNotes g lc opts st =
     sortNotes g lc
       (filter (\<lambda>n. favorite_filter opts n \<and> tag_filter opts n \<and> query_filter opts n)
          (readStore_notes st)) \<and>
   mset (listNotes g lc opts st) =
     mset (filter (\<lambda>n. favorite_filter opts n \<and> tag_filter opts n \<and> query_filter opts n)
            (readStore_notes st)) \<and>
   (tags A = [''x''] \<and> favorite A \<and> tags B = [''x''] \<and> \<not> favorite B \<and>
    tags C = [''y''] \<and> favorite C \<longrightarrow>
      listNotes g lc \<lparr> tag = Some ''x'', favorites = Some True, query = None \<rparr>
        \<lparr> slot = Some [A, B, C], setItem_calls = k \<rparr> = [A])"
proof (intro conjI impI)
  show "listNotes g lc opts st =
     sortNotes g lc
       (filter (\<lambda>n. favorite_filter opts n \<and> tag_filter opts n \<and> query_filter opts n)
          (readStore_notes st))"
    by (rule listNotes_filter)
  then show "mset (listNotes g lc opts st) =
     mset (filter (\<lambda>n. favorite_filter opts n \<and> tag_filter opts n \<and> query_filter opts n)
            (readStore_notes st))"
    by (simp only: sortNotes_mset)
next
  assume h: "tags A = [''x''] \<and> favorite A \<and> tags B = [''x''] \<and> \<not> favorite B \<and>
    tags C = [''y''] \<and> favorite C"
  let ?o = "\<lparr> tag = Some ''x'', favorites = Some True, query = None \<rparr>"
  have x: "toLowerCase (trim ''x'') = ''x''" "toLowerCase ''x'' = ''x''" "toLowerCase ''y'' = ''y''"
    by (simp_all add: toLowerCase_def lower_char_def trim_def is_space_def)
  have "filter (\<lambda>n. favorite_filter ?o n \<and> tag_filter ?o n \<and> query_filter ?o n) [A, B, C] = [A]"
    using h by (simp add: favorite_filter_def tag_filter_def query_filter_def x)
  then show "listNotes g lc ?o \<lparr> slot = Some [A, B, C], setItem_calls = k \<rparr> = [A]"
    by (simp add: listNotes_filter readStore_notes_def sortNotes_single)
qed

text \<open>
  The three notes of the example, with all their other properties equal; and a tag option
  and a query in another case and with blanks around them.
\<close>

theorem listNotes_filters_conjoin_witness:
  "listNotes exampleTime codeUnitCompare \<lparr> tag = Some ''x'', favorites = Some True, query = None \<rparr>
     \<lparr> slot = Some [exampleNote\<lparr> id_note := ''A'', tags := [''x''], favorite := True \<rparr>,
                     exampleNote\<lparr> id_note := ''B'', tags := [''x''], favorite := False \<rparr>,
                     exampleNote\<lparr> id_note := ''C'', tags := [''y''], favorite := True \<rparr>],
       setItem_calls = 0 \<rparr>
     = [exampleNote\<lparr> id_note := ''A'', tags := [''x''], favorite := True \<rparr>] \<and>
   listNotes exampleTime codeUnitCompare
     \<lparr> tag = Some '' X '', favorites = None, query = Some '' tEx '' \<rparr>
     \<lparr> slot = Some [exampleNote\<lparr> id_note := ''A'', tags := [''x''], favorite := True \<rparr>,
                     exampleNote\<lparr> id_note := ''B'', tags := [''x''], content := ''other'' \<rparr>,
                     exampleNote\<lparr> id_note := ''C'', tags := [''y''], favorite := True \<rparr>],
       setItem_calls = 0 \<rparr>
     = [exampleNote\<lparr> id_note := ''A'', tags := [''x''], favorite := True \<rparr>]"
proof -
  have "listNotes exampleTime codeUnitCompare
     \<lparr> tag = Some '' X '', favorites = None, query = Some '' tEx '' \<rparr>
     \<lparr> slot = Some [exampleNote\<lparr> id_note := ''A'', tags := [''x''], favorite := True \<rparr>,
                     exampleNote\<lparr> id_note := ''B'', tags := [''x''], content := ''other'' \<rparr>,
                     exampleNote\<lparr> id_note := ''C'', tags := [''y''], favorite := True \<rparr>],
       setItem_calls = 0 \<rparr>
     = [exampleNote\<lparr> id_note := ''A'', tags := [''x''], favorite := True \<rparr>]"
    by code_simp
  then show ?thesis
  using listNotes_filters_conjoin[of exampleTime codeUnitCompare
      "\<lparr> tag = Some ''x'', favorites = Some True, query = None \<rparr>" empty_slot
      "exampleNote\<lparr> id_note := ''A'', tags := [''x''], favorite := True \<rparr>"
      "exampleNote\<lparr> id_note := ''B'', tags := [''x''], favorite := False \<rparr>"
      "exampleNote\<lparr> id_note := ''C'', tags := [''y''], favorite := True \<rparr>" 0]
  by simp
qed

lemma codeUnitCompare_refl: "codeUnitCompare a a = 0"
  by (induction a) simp_all

lemma codeUnitCompare_sym: "(codeUnitCompare a b < 0) = (0 < codeUnitCompare b a)"
  by (induction a b rule: codeUnitCompare.induct) simp_all

lemma codeUnitCompare_Cons_le:
  "codeUnitCompare (x # xs) (y # ys) \<le> 0 \<longleftrightarrow>
     (of_char x :: nat) < of_char y
     \<or> ((of_char x :: nat) = of_char y \<and> codeUnitCompare xs ys \<le> 0)"
  by (cases "(of_char x :: nat) < of_char y"; cases "(of_char y :: nat) < of_char x") auto

lemma codeUnitCompare_trans:
  "codeUnitCompare a b \<le> 0 \<Longrightarrow> codeUnitCompare b d \<le> 0 \<Longrightarrow> codeUnitCompare a d \<le> 0"
proof (induction a arbitrary: b d)
  case Nil
  then show ?case by (cases d) simp_all
next
  case (Cons x xs)
  obtain y ys where b: "b = y # ys" using Cons.prems(1) by (cases b) simp_all
  obtain z zs where d: "d = z # zs" using Cons.prems(2) b by (cases d) simp_all
  have 1: "(of_char x :: nat) < of_char y
     \<or> ((of_char x :: nat) = of_char y \<and> codeUnitCompare xs ys \<le> 0)"
    using Cons.prems(1) unfolding b codeUnitCompare_Cons_le .
  have 2: "(of_char y :: nat) < of_char z
     \<or> ((of_char y :: nat) = of_char z \<and> codeUnitCompare ys zs \<le> 0)"
    using Cons.prems(2) unfolding b d codeUnitCompare_Cons_le .
  have "(of_char x :: nat) < of_char z
     \<or> ((of_char x :: nat) = of_char z \<and> codeUnitCompare xs zs \<le> 0)"
  proof (cases "(of_char x :: nat) < of_char z")
    case True then show ?thesis by simp
  next
    case False
    then have e: "(of_char x :: nat) = of_char y" "(of_char y :: nat) = of_char z"
      using 1 2 by linarith+
    then have "codeUnitCompare xs ys \<le> 0" "codeUnitCompare ys zs \<le> 0" using 1 2 by simp_all
    then have "codeUnitCompare xs zs \<le> 0" by (rule Cons.IH)
    then show ?thesis using e by simp
  qed
  then show ?case unfolding d codeUnitCompare_Cons_le .
qed

lemma consistent_codeUnitCompare: "consistent codeUnitCompare"
  unfolding consistent_def
proof (intro conjI allI impI)
  fix a b d
  show "codeUnitCompare a a = 0" by (rule codeUnitCompare_refl)
  show "(codeUnitCompare a b < 0) = (0 < codeUnitCompare b a)" by (rule codeUnitCompare_sym)
  assume "codeUnitCompare a b \<le> 0" "codeUnitCompare b d \<le> 0"
  then show "codeUnitCompare a d \<le> 0" by (rule codeUnitCompare_trans)
qed

lemma consistent_total: "consistent c \<Longrightarrow> c a b \<le> 0 \<or> c b a \<le> 0"
proof -
  assume "consistent c"
  then have "(c b a < 0) = (0 < c a b)" unfolding consistent_def by blast
  then show ?thesis by linarith
qed

lemma consistent_trans: "consistent c \<Longrightarrow> c a b \<le> 0 \<Longrightarrow> c b d \<le> 0 \<Longrightarrow> c a d \<le> 0"
  unfolding consistent_def by blast

lemma consistent_refl: "consistent c \<Longrightarrow> c a a = 0"
  unfolding consistent_def by blast

lemma compareNotes_valid:
  assumes "g (updatedAt a) = Some ta" and "g (updatedAt b) = Some tb"
  shows "sort_compare (compareNotes g lc) a b \<le> 0 \<longleftrightarrow>
           tb < ta \<or> (ta = tb \<and> lc (title a) (title b) \<le> 0)"
  using assms by (auto simp: sort_compare_def compareNotes_def Let_def or_else_Some_nil)

lemma compareNotes_same_keys:
  assumes "consistent lc" and "updatedAt a = updatedAt b" and "title a = title b"
  shows "sort_compare (compareNotes g lc) a b \<le> 0"
  using assms consistent_refl[of lc "title b"]
  by (cases "g (updatedAt b)") (simp_all add: sort_compare_def compareNotes_def or_else_Some_nil)

lemma sortNotes_sorted:
  assumes c: "consistent lc" and v: "\<forall>n\<in>set xs. g (updatedAt n) \<noteq> None"
  shows "sorted_wrt (\<lambda>a b. \<exists>ta tb. g (updatedAt a) = Some ta \<and> g (updatedAt b) = Some tb \<and>
            (tb < ta \<or> (ta = tb \<and> lc (title a) (title b) \<le> 0))) (sortNotes g lc xs)"
proof -
  define S where "S = {n :: Note. \<exists>t. g (updatedAt n) = Some t}"
  define cmp where "cmp = compareNotes g lc"
  have tot: "sort_compare cmp a b \<le> 0 \<or> sort_compare cmp b a \<le> 0"
    if "a \<in> S" "b \<in> S" for a b
  proof -
    from that obtain ta tb where t: "g (updatedAt a) = Some ta" "g (updatedAt b) = Some tb"
      unfolding S_def by blast
    show ?thesis
      using consistent_total[OF c, of "title a" "title b"]
      unfolding cmp_def compareNotes_valid[OF t] compareNotes_valid[OF t(2) t(1)] by auto
  qed
  have tr: "sort_compare cmp a d \<le> 0"
    if "a \<in> S" "b \<in> S" "d \<in> S" "sort_compare cmp a b \<le> 0" "sort_compare cmp b d \<le> 0"
    for a b d
  proof -
    from that(1,2,3) obtain ta tb td where t: "g (updatedAt a) = Some ta"
      "g (updatedAt b) = Some tb" "g (updatedAt d) = Some td"
      unfolding S_def by blast
    have ab: "tb < ta \<or> (ta = tb \<and> lc (title a) (title b) \<le> 0)"
      using that(4) unfolding cmp_def compareNotes_valid[OF t(1) t(2)] .
    have bd: "td < tb \<or> (tb = td \<and> lc (title b) (title d) \<le> 0)"
      using that(5) unfolding cmp_def compareNotes_valid[OF t(2) t(3)] .
    have "td < ta \<or> (ta = td \<and> lc (title a) (title d) \<le> 0)"
      using ab bd consistent_trans[OF c, of "title a" "title b" "title d"] by auto
    then show ?thesis unfolding cmp_def compareNotes_valid[OF t(1) t(3)] .
  qed
  have sub: "set xs \<subseteq> S" using v unfolding S_def by auto
  have s: "sorted_wrt (\<lambda>a b. sort_compare cmp a b \<le> 0) (array_sort cmp xs)"
    using tot tr sub by (rule sorted_array_sort[where S=S])
  have m: "\<exists>ta tb. g (updatedAt a) = Some ta \<and> g (updatedAt b) = Some tb \<and>
            (tb < ta \<or> (ta = tb \<and> lc (title a) (title b) \<le> 0))"
    if "a \<in> set (array_sort cmp xs)" "b \<in> set (array_sort cmp xs)"
      "sort_compare cmp a b \<le> 0" for a b
  proof -
    from that(1,2) sub obtain ta tb where t: "g (updatedAt a) = Some ta" "g (updatedAt b) = Some tb"
      unfolding S_def set_array_sort by blast
    have "tb < ta \<or> (ta = tb \<and> lc (title a) (title b) \<le> 0)"
      using that(3) unfolding cmp_def compareNotes_valid[OF t] .
    then show ?thesis using t by blast
  qed
  have "sorted_wrt (\<lambda>a b. \<exists>ta tb. g (updatedAt a) = Some ta \<and> g (updatedAt b) = Some tb \<and>
            (tb < ta \<or> (ta = tb \<and> lc (title a) (title b) \<le> 0))) (array_sort cmp xs)"
    by (rule sorted_wrt_mono_rel[OF _ s]) (rule m)
  then show ?thesis unfolding sortNotes_def cmp_def .
qed

lemma sortNotes_stable:
  assumes "consistent lc" and "\<forall>n\<in>set xs. g (updatedAt n) \<noteq> None"
  shows "filter (\<lambda>n. updatedAt n = u \<and> title n = t) (sortNotes g lc xs)
           = filter (\<lambda>n. updatedAt n = u \<and> title n = t) xs"
  unfolding sortNotes_def
proof (rule stable_array_sort, intro ballI impI)
  fix x y :: Note assume "(updatedAt x = u \<and> title x = t) \<and> updatedAt y = u \<and> title y = t"
  then have "updatedAt x = updatedAt y" "title x = title y" by simp_all
  with assms(1) show "sort_compare (compareNotes g lc) x y \<le> 0"
    by (rule compareNotes_same_keys)
qed

text \<open>
  C5 (as the code has it). Let \<open>localeCompare\<close> be consistent and let the \<open>updatedAt\<close> of
  every stored note be the text of a date. Then what \<open>listNotes\<close> returns is sorted: of two
  notes the earlier in the list has the later time, or the same time and a title that
  \<open>localeCompare\<close> does not put after the other. And the sort is stable: the notes with one
  and the same \<open>updatedAt\<close> and title come in the order in which the store has them. For
  notes with the times T1, T1, T2 (T1 before T2) and the titles b, a, z the order is z, a, b.
\<close>

theorem listNotes_sorted_stable:
  assumes "consistent lc" and "\<forall>n\<in>set (readStore_notes st). g (updatedAt n) \<noteq> None"
  shows "sorted_wrt (\<lambda>a b. \<exists>ta tb. g (updatedAt a) = Some ta \<and> g (updatedAt b) = Some tb \<and>
                (tb < ta \<or> (ta = tb \<and> lc (title a) (title b) \<le> 0)))
              (listNotes g lc opts st) \<and>
         (\<forall>u t. filter (\<lambda>n. updatedAt n = u \<and> title n = t) (listNotes g lc opts st) =
                filter (\<lambda>n. updatedAt n = u \<and> title n = t)
                  (filter (\<lambda>n. favorite_filter opts n \<and> tag_filter opts n \<and> query_filter opts n)
                     (readStore_notes st))) \<and>
         (title n1 = ''b'' \<and> title n2 = ''a'' \<and> title n3 = ''z'' \<and>
          g (updatedAt n1) = Some T1 \<and> g (updatedAt n2) = Some T1 \<and> g (updatedAt n3) = Some T2 \<and>
          T1 < T2 \<and> lc ''a'' ''b'' < 0 \<longrightarrow>
            listNotes g lc \<lparr> tag = None, favorites = None, query = None \<rparr>
              \<lparr> slot = Some [n1, n2, n3], setItem_calls = k \<rparr> = [n3, n2, n1])"
proof (intro conjI impI allI)
  let ?xs = "filter (\<lambda>n. favorite_filter opts n \<and> tag_filter opts n \<and> query_filter opts n)
               (readStore_notes st)"
  have v: "\<forall>n\<in>set ?xs. g (updatedAt n) \<noteq> None" using assms(2) by simp
  with assms(1) show "sorted_wrt (\<lambda>a b. \<exists>ta tb. g (updatedAt a) = Some ta \<and> g (updatedAt b) = Some tb \<and>
                (tb < ta \<or> (ta = tb \<and> lc (title a) (title b) \<le> 0)))
              (listNotes g lc opts st)"
    unfolding listNotes_filter by (rule sortNotes_sorted)
  fix u t
  show "filter (\<lambda>n. updatedAt n = u \<and> title n = t) (listNotes g lc opts st) =
                filter (\<lambda>n. updatedAt n = u \<and> title n = t) ?xs"
    unfolding listNotes_filter using assms(1) v by (rule sortNotes_stable)
next
  assume h: "title n1 = ''b'' \<and> title n2 = ''a'' \<and> title n3 = ''z'' \<and>
          g (updatedAt n1) = Some T1 \<and> g (updatedAt n2) = Some T1 \<and> g (updatedAt n3) = Some T2 \<and>
          T1 < T2 \<and> lc ''a'' ''b'' < 0"
  let ?o = "\<lparr> tag = None, favorites = None, query = None \<rparr>"
  have ba: "0 < lc ''b'' ''a''" using assms(1) h unfolding consistent_def by blast
  have c23: "sort_compare (compareNotes g lc) n2 n3 = T2 - T1"
    and c13: "sort_compare (compareNotes g lc) n1 n3 = T2 - T1"
    and c12: "sort_compare (compareNotes g lc) n1 n2 = lc ''b'' ''a''"
    using h by (simp_all add: sort_compare_def compareNotes_def or_else_Some_nil)
  have "sortNotes g lc [n1, n2, n3] = [n3, n2, n1]"
    using h ba by (simp add: sortNotes_def array_sort_def c23 c13 c12)
  then show "listNotes g lc ?o \<lparr> slot = Some [n1, n2, n3], setItem_calls = k \<rparr> = [n3, n2, n1]"
    by (simp add: listNotes_def readStore_notes_def Let_def)
qed

text \<open>
  Four stored notes, two of them equal in time and title: the list is sorted and these two
  keep their order. And the three notes of the example.
\<close>

theorem listNotes_sorted_stable_witness:
  "consistent codeUnitCompare \<and>
   list_all (\<lambda>n. exampleTime (updatedAt n) \<noteq> None) (readStore_notes
        \<lparr> slot = Some [exampleNote\<lparr> id_note := ''1'', title := ''b'' \<rparr>,
                        exampleNote\<lparr> id_note := ''2'', title := ''a'' \<rparr>,
                        exampleNote\<lparr> id_note := ''3'', title := ''z'',
                                     updatedAt := ''2024-01-02T00:00:00.000Z'' \<rparr>,
                        exampleNote\<lparr> id_note := ''4'', title := ''b'' \<rparr>],
          setItem_calls = 0 \<rparr>) \<and>
   listNotes exampleTime codeUnitCompare \<lparr> tag = None, favorites = None, query = None \<rparr>
        \<lparr> slot = Some [exampleNote\<lparr> id_note := ''1'', title := ''b'' \<rparr>,
                        exampleNote\<lparr> id_note := ''2'', title := ''a'' \<rparr>,
                        exampleNote\<lparr> id_note := ''3'', title := ''z'',
                                     updatedAt := ''2024-01-02T00:00:00.000Z'' \<rparr>,
                        exampleNote\<lparr> id_note := ''4'', title := ''b'' \<rparr>],
          setItem_calls = 0 \<rparr>
     = [exampleNote\<lparr> id_note := ''3'', title := ''z'', updatedAt := ''2024-01-02T00:00:00.000Z'' \<rparr>,
        exampleNote\<lparr> id_note := ''2'', title := ''a'' \<rparr>,
        exampleNote\<lparr> id_note := ''1'', title := ''b'' \<rparr>,
        exampleNote\<lparr> id_note := ''4'', title := ''b'' \<rparr>] \<and>
   sorted_wrt (\<lambda>a b. \<exists>ta tb. exampleTime (updatedAt a) = Some ta \<and> exampleTime (updatedAt b) = Some tb \<and>
                (tb < ta \<or> (ta = tb \<and> codeUnitCompare (title a) (title b) \<le> 0)))
     (listNotes exampleTime codeUnitCompare \<lparr> tag = None, favorites = None, query = None \<rparr>
        \<lparr> slot = Some [exampleNote\<lparr> id_note := ''1'', title := ''b'' \<rparr>,
                        exampleNote\<lparr> id_note := ''2'', title := ''a'' \<rparr>,
                        exampleNote\<lparr> id_note := ''3'', title := ''z'',
                                     updatedAt := ''2024-01-02T00:00:00.000Z'' \<rparr>,
                        exampleNote\<lparr> id_note := ''4'', title := ''b'' \<rparr>],
          setItem_calls = 0 \<rparr>) \<and>
   filter (\<lambda>n. updatedAt n = ''2024-01-01T00:00:00.000Z'' \<and> title n = ''b'')
     (listNotes exampleTime codeUnitCompare \<lparr> tag = None, favorites = None, query = None \<rparr>
        \<lparr> slot = Some [exampleNote\<lparr> id_note := ''1'', title := ''b'' \<rparr>,
                        exampleNote\<lparr> id_note := ''2'', title := ''a'' \<rparr>,
                        exampleNote\<lparr> id_note := ''3'', title := ''z'',
                                     updatedAt := ''2024-01-02T00:00:00.000Z'' \<rparr>,
                        exampleNote\<lparr> id_note := ''4'', title := ''b'' \<rparr>],
          setItem_calls = 0 \<rparr>)
     = [exampleNote\<lparr> id_note := ''1'', title := ''b'' \<rparr>,
        exampleNote\<lparr> id_note := ''4'', title := ''b'' \<rparr>] \<and>
   listNotes exampleTime codeUnitCompare \<lparr> tag = None, favorites = None, query = None \<rparr>
        \<lparr> slot = Some [exampleNote\<lparr> id_note := ''1'', title := ''b'' \<rparr>,
                        exampleNote\<lparr> id_note := ''2'', title := ''a'' \<rparr>,
                        exampleNote\<lparr> id_note := ''3'', title := ''z'',
                                     updatedAt := ''2024-01-02T00:00:00.000Z'' \<rparr>],
          setItem_calls = 0 \<rparr>
     = [exampleNote\<lparr> id_note := ''3'', title := ''z'', updatedAt := ''2024-01-02T00:00:00.000Z'' \<rparr>,
        exampleNote\<lparr> id_note := ''2'', title := ''a'' \<rparr>,
        exampleNote\<lparr> id_note := ''1'', title := ''b'' \<rparr>]"
proof -
  let ?n1 = "exampleNote\<lparr> id_note := ''1'', title := ''b'' \<rparr>"
  let ?n2 = "exampleNote\<lparr> id_note := ''2'', title := ''a'' \<rparr>"
  let ?n3 = "exampleNote\<lparr> id_note := ''3'', title := ''z'', updatedAt := ''2024-01-02T00:00:00.000Z'' \<rparr>"
  let ?n4 = "exampleNote\<lparr> id_note := ''4'', title := ''b'' \<rparr>"
  let ?o = "\<lparr> tag = None, favorites = None, query = None \<rparr>"
  let ?st = "\<lparr> slot = Some [?n1, ?n2, ?n3, ?n4], setItem_calls = 0 \<rparr>"
  have v: "\<forall>n\<in>set (readStore_notes ?st). exampleTime (updatedAt n) \<noteq> None"
    by (simp add: readStore_notes_def exampleNote_def exampleTime_def)
  note inst = listNotes_sorted_stable[OF consistent_codeUnitCompare v, of ?o
      ?n1 ?n2 ?n3 1704067200000 1704153600000 0]
  have v': "list_all (\<lambda>n. exampleTime (updatedAt n) \<noteq> None) (readStore_notes ?st)"
    using v by (simp only: list_all_iff)
  have l: "listNotes exampleTime codeUnitCompare ?o ?st = [?n3, ?n2, ?n1, ?n4]"
    by code_simp
  have s: "sorted_wrt (\<lambda>a b. \<exists>ta tb. exampleTime (updatedAt a) = Some ta \<and> exampleTime (updatedAt b) = Some tb \<and>
                (tb < ta \<or> (ta = tb \<and> codeUnitCompare (title a) (title b) \<le> 0)))
     (listNotes exampleTime codeUnitCompare ?o ?st)"
    using inst by blast
  have "filter (\<lambda>n. updatedAt n = ''2024-01-01T00:00:00.000Z'' \<and> title n = ''b'')
          (listNotes exampleTime codeUnitCompare ?o ?st) =
        filter (\<lambda>n. updatedAt n = ''2024-01-01T00:00:00.000Z'' \<and> title n = ''b'')
          (filter (\<lambda>n. favorite_filter ?o n \<and> tag_filter ?o n \<and> query_filter ?o n)
             (readStore_notes ?st))"
    using inst by blast
  then have f: "filter (\<lambda>n. updatedAt n = ''2024-01-01T00:00:00.000Z'' \<and> title n = ''b'')
          (listNotes exampleTime codeUnitCompare ?o ?st) = [?n1, ?n4]"
    by (simp add: favorite_filter_def tag_filter_def query_filter_def readStore_notes_def
        exampleNote_def)
  have p: "title ?n1 = ''b'' \<and> title ?n2 = ''a'' \<and> title ?n3 = ''z'' \<and>
          exampleTime (updatedAt ?n1) = Some 1704067200000 \<and>
          exampleTime (updatedAt ?n2) = Some 1704067200000 \<and>
          exampleTime (updatedAt ?n3) = Some 1704153600000 \<and>
          (1704067200000 :: int) < 1704153600000 \<and> codeUnitCompare ''a'' ''b'' < 0"
    by (simp add: exampleNote_def exampleTime_def)
  have e: "listNotes exampleTime codeUnitCompare ?o
             \<lparr> slot = Some [?n1, ?n2, ?n3], setItem_calls = 0 \<rparr> = [?n3, ?n2, ?n1]"
    using inst p by blast
  show ?thesis using consistent_codeUnitCompare v' l s f e by (intro conjI)
qed

text \<open>
  C5 as the specification words it, for every sequence that \<open>listNotes\<close> returns, fails
  where an \<open>updatedAt\<close> is no date; \<open>createNote\<close> stores the \<open>updatedAt\<close> that it is given.
  The difference of the times is then NaN, the comparison function returns it, and the sort
  reads it as +0. After \<open>createNote({title: "b", updatedAt: "garbage"})\<close> and
  \<open>createNote({title: "a", updatedAt: "garbage"})\<close> the two notes have the same \<open>updatedAt\<close>
  and compare as equal, so that they stay in the order b, a, against the ascending titles.
  After three notes with the \<open>updatedAt\<close> of 1 January, \<open>"garbage"\<close> and 2 January each
  note compares as equal to its neighbour, the array is taken as ordered and stays as it
  is: the note of 1 January comes before the note of 2 January.
\<close>

theorem listNotes_sorted_counterexample:
  "map title (listNotes exampleTime codeUnitCompare \<lparr> tag = None, favorites = None, query = None \<rparr>
     (run [Create ''2024-01-03T00:00:00.000Z'' ''id-1''
             (no_fields\<lparr> title_opt := Some ''b'', updatedAt_opt := Some ''garbage'' \<rparr>),
           Create ''2024-01-03T00:00:00.000Z'' ''id-2''
             (no_fields\<lparr> title_opt := Some ''a'', updatedAt_opt := Some ''garbage'' \<rparr>)]
        empty_slot)) = [''b'', ''a''] \<and>
   map updatedAt (listNotes exampleTime codeUnitCompare \<lparr> tag = None, favorites = None, query = None \<rparr>
     (run [Create ''2024-01-03T00:00:00.000Z'' ''id-1''
             (no_fields\<lparr> title_opt := Some ''b'', updatedAt_opt := Some ''garbage'' \<rparr>),
           Create ''2024-01-03T00:00:00.000Z'' ''id-2''
             (no_fields\<lparr> title_opt := Some ''a'', updatedAt_opt := Some ''garbage'' \<rparr>)]
        empty_slot)) = [''garbage'', ''garbage''] \<and>
   0 < codeUnitCompare ''b'' ''a'' \<and>
   map updatedAt (listNotes exampleTime codeUnitCompare \<lparr> tag = None, favorites = None, query = None \<rparr>
     (run [Create ''2024-01-03T00:00:00.000Z'' ''id-1''
             (no_fields\<lparr> updatedAt_opt := Some ''2024-01-01T00:00:00.000Z'' \<rparr>),
           Create ''2024-01-03T00:00:00.000Z'' ''id-2''
             (no_fields\<lparr> updatedAt_opt := Some ''garbage'' \<rparr>),
           Create ''2024-01-03T00:00:00.000Z'' ''id-3''
             (no_fields\<lparr> updatedAt_opt := Some ''2024-01-02T00:00:00.000Z'' \<rparr>)]
        empty_slot))
     = [''2024-01-01T00:00:00.000Z'', ''garbage'', ''2024-01-02T00:00:00.000Z''] \<and>
   exampleTime ''2024-01-01T00:00:00.000Z'' = Some 1704067200000 \<and>
   exampleTime ''garbage'' = None \<and>
   exampleTime ''2024-01-02T00:00:00.000Z'' = Some 1704153600000 \<and>
   (1704067200000 :: int) < 1704153600000"
  by code_simp

section \<open>Tags and their counts\<close>

lemma map_of_map_set: "map_of (map_set k v m) = (map_of m)(k \<mapsto> v)"
  by (induction m) (auto simp: fun_eq_iff)

lemma map_fst_map_set:
  "map fst (map_set k v m) = (if k \<in> set (map fst m) then map fst m else map fst m @ [k])"
proof (induction m)
  case Nil
  show ?case by simp
next
  case (Cons e m)
  obtain k' v' where e: "e = (k', v')" by (cases e)
  show ?case
  proof (cases "k' = k")
    case True
    then show ?thesis by (simp add: e)
  next
    case False
    then show ?thesis using Cons.IH by (simp add: e)
  qed
qed

lemma keys_map_set: "fst ` set (map_set k v m) = insert k (fst ` set m)"
proof -
  have "set (map fst (map_set k v m)) = insert k (set (map fst m))"
    unfolding map_fst_map_set by auto
  then show ?thesis by simp
qed

lemma distinct_map_set: "distinct (map fst m) \<Longrightarrow> distinct (map fst (map_set k v m))"
  by (simp add: map_fst_map_set)

lemma count_tag_alt:
  "count_tag m t = (if trim t = [] then m else map_set (trim t) (count_of m (trim t) + 1) m)"
  by (simp add: count_tag_def count_of_def Let_def split: option.splits)

lemma count_of_count_tag:
  "count_of (count_tag m t) k = count_of m k + (if trim t = k \<and> k \<noteq> [] then 1 else 0)"
  by (auto simp: count_tag_alt count_of_def map_of_map_set)

lemma keys_count_tag:
  "fst ` set (count_tag m t) = fst ` set m \<union> (if trim t = [] then {} else {trim t})"
  by (simp add: count_tag_alt keys_map_set)

lemma distinct_count_tag: "distinct (map fst m) \<Longrightarrow> distinct (map fst (count_tag m t))"
  by (simp add: count_tag_alt distinct_map_set)

lemma count_of_foldl:
  "count_of (foldl count_tag m ts) k =
     count_of m k + (if k = [] then 0 else length (filter (\<lambda>t. trim t = k) ts))"
  by (induction ts arbitrary: m) (simp_all add: count_of_count_tag)

lemma keys_foldl:
  "fst ` set (foldl count_tag m ts) = fst ` set m \<union> {k. k \<noteq> [] \<and> k \<in> trim ` set ts}"
  by (induction ts arbitrary: m) (auto simp: keys_count_tag)

lemma distinct_foldl:
  "distinct (map fst m) \<Longrightarrow> distinct (map fst (foldl count_tag m ts))"
  by (induction ts arbitrary: m) (simp_all add: distinct_count_tag)

lemma foldl_tags_concat:
  "foldl (\<lambda>m n. foldl count_tag m (tags n)) m ns = foldl count_tag m (concat (map tags ns))"
  by (induction ns arbitrary: m) simp_all

lemma count_of_member:
  "distinct (map fst m) \<Longrightarrow> (k, c) \<in> set m \<Longrightarrow> count_of m k = c"
  by (simp add: count_of_def)

lemma length_filter_eq_distinct:
  "distinct xs \<Longrightarrow> length (filter (\<lambda>t. t = k) xs) = (if k \<in> set xs then 1 else 0)"
  by (induction xs) auto

lemma occurrences_tags_ok:
  "\<forall>n\<in>set ns. tags_ok (tags n) \<Longrightarrow>
   occurrences k ns = length (filter (\<lambda>n. k \<in> set (tags n)) ns)"
proof (induction ns)
  case Nil then show ?case by (simp add: occurrences_def)
next
  case (Cons n ns)
  have ok: "tags_ok (tags n)" using Cons.prems by simp
  then have "filter (\<lambda>t. trim t = k) (tags n) = filter (\<lambda>t. t = k) (tags n)"
    by (intro filter_cong) (auto simp: tags_ok_def)
  then have "length (filter (\<lambda>t. trim t = k) (tags n)) = (if k \<in> set (tags n) then 1 else 0)"
    using ok by (simp add: length_filter_eq_distinct tags_ok_def)
  moreover have "occurrences k ns = length (filter (\<lambda>n. k \<in> set (tags n)) ns)"
    using Cons by simp
  ultimately show ?case by (simp add: occurrences_def)
qed

lemma listTags_entries:
  "mset (listTags lc st) = mset (foldl count_tag [] (concat (map tags (readStore_notes st))))"
  by (simp add: listTags_def foldl_tags_concat mset_array_sort)

lemma listTags_sorted:
  assumes "consistent lc"
  shows "sorted_wrt (\<lambda>a b. lc (fst a) (fst b) \<le> 0) (listTags lc st)"
proof -
  define cmp :: "string \<times> nat \<Rightarrow> string \<times> nat \<Rightarrow> int option"
    where "cmp = (\<lambda>a b. Some (lc (fst a) (fst b)))"
  have sc: "sort_compare cmp = (\<lambda>a b. lc (fst a) (fst b))"
    by (simp add: cmp_def sort_compare_def fun_eq_iff)
  have tot: "sort_compare cmp a b \<le> 0 \<or> sort_compare cmp b a \<le> 0" for a b
    unfolding sc by (rule consistent_total[OF assms])
  have tr: "sort_compare cmp a b \<le> 0 \<Longrightarrow> sort_compare cmp b d \<le> 0 \<Longrightarrow> sort_compare cmp a d \<le> 0"
    for a b d
    unfolding sc by (rule consistent_trans[OF assms])
  have "sorted_wrt (\<lambda>a b. sort_compare cmp a b \<le> 0) (array_sort cmp xs)" for xs
  proof (rule sorted_array_sort[where S=UNIV])
    show "sort_compare cmp a b \<le> 0 \<or> sort_compare cmp b a \<le> 0" for a b by (rule tot)
    show "sort_compare cmp a b \<le> 0 \<Longrightarrow> sort_compare cmp b d \<le> 0 \<Longrightarrow> sort_compare cmp a d \<le> 0"
      for a b d by (rule tr)
    show "set xs \<subseteq> UNIV" by simp
  qed
  then have "sorted_wrt (\<lambda>a b. lc (fst a) (fst b) \<le> 0) (array_sort cmp xs)" for xs
    unfolding sc .
  then show ?thesis unfolding listTags_def cmp_def .
qed

lemma listTags_set:
  "set (listTags lc st) = set (foldl count_tag [] (concat (map tags (readStore_notes st))))"
  using listTags_entries[of lc st] by (rule mset_eq_setD)

lemma listTags_distinct: "distinct (map fst (listTags lc st))"
proof -
  let ?es = "foldl count_tag [] (concat (map tags (readStore_notes st)))"
  have de: "distinct (map fst ?es)" by (rule distinct_foldl) simp
  have "mset (map fst (listTags lc st)) = mset (map fst ?es)"
    using listTags_entries[of lc st] by simp
  then show ?thesis using de by (metis mset_eq_imp_distinct_iff)
qed

lemma listTags_keys:
  "fst ` set (listTags lc st) =
     {k. k \<noteq> [] \<and> (\<exists>n\<in>set (readStore_notes st). k \<in> trim ` set (tags n))}"
  unfolding listTags_set keys_foldl by auto

lemma listTags_member_count:
  assumes "(k, c) \<in> set (listTags lc st)"
  shows "c = occurrences k (readStore_notes st)"
proof -
  let ?es = "foldl count_tag [] (concat (map tags (readStore_notes st)))"
  have de: "distinct (map fst ?es)" by (rule distinct_foldl) simp
  have in_es: "(k, c) \<in> set ?es" using assms listTags_set by simp
  then have "k \<in> fst ` set ?es" by (rule image_eqI[rotated]) simp
  then have ne: "k \<noteq> []" unfolding keys_foldl by simp
  have "count_of ?es k = c" using de in_es by (rule count_of_member)
  moreover have "count_of ([] :: (string \<times> nat) list) k = 0" by (simp add: count_of_def)
  ultimately show ?thesis using ne by (simp add: count_of_foldl occurrences_def)
qed

lemma listTags_member_notes:
  assumes "\<forall>n\<in>set (readStore_notes st). tags_ok (tags n)" and "(k, c) \<in> set (listTags lc st)"
  shows "c = length (filter (\<lambda>n. k \<in> set (tags n)) (readStore_notes st))"
  using listTags_member_count[OF assms(2)] occurrences_tags_ok[OF assms(1)] by simp

text \<open>
  C8. Let \<open>localeCompare\<close> be consistent. \<open>listTags\<close> returns one entry for each value
  that is the trimmed, non-empty form of a tag of some stored note, and no value twice;
  the count of an entry is the number of tags of the stored notes that trim to its value;
  when the tags of every stored note satisfy the tag invariant of the normalizer, that is
  the number of notes that contain the tag, and so it is in every collection that a session
  builds from an empty slot; the entries are sorted by \<open>localeCompare\<close> of
  their tags. In a locale that does not put \<open>"a"\<close> after \<open>"b"\<close>,
  \<open>createNote({title: " Hi ", tags: ["a", "a", " b"]})\<close> on an empty slot returns a note
  with the title \<open>"Hi"\<close>, the tags \<open>["a", "b"]\<close>, the generated id and no favorite flag,
  and \<open>listTags\<close> then returns \<open>[{tag: "a", count: 1}, {tag: "b", count: 1}]\<close>.
\<close>

theorem listTags_counts:
  assumes "consistent lc"
  shows "distinct (map fst (listTags lc st)) \<and>
         fst ` set (listTags lc st) =
           {k. k \<noteq> [] \<and> (\<exists>n\<in>set (readStore_notes st). k \<in> trim ` set (tags n))} \<and>
         (\<forall>(k, c)\<in>set (listTags lc st). c = occurrences k (readStore_notes st)) \<and>
         ((\<forall>n\<in>set (readStore_notes st). tags_ok (tags n)) \<longrightarrow>
            (\<forall>(k, c)\<in>set (listTags lc st).
                c = length (filter (\<lambda>n. k \<in> set (tags n)) (readStore_notes st)))) \<and>
         (\<forall>(k, c)\<in>set (listTags lc (run cs empty_slot)).
                c = length (filter (\<lambda>n. k \<in> set (tags n))
                      (readStore_notes (run cs empty_slot)))) \<and>
         sorted_wrt (\<lambda>a b. lc (fst a) (fst b) \<le> 0) (listTags lc st) \<and>
         (lc ''a'' ''b'' \<le> 0 \<longrightarrow>
            (let created = createNote now uid
                   (no_fields\<lparr> title_opt := Some '' Hi '', tags_opt := Some [''a'', ''a'', '' b''] \<rparr>)
                   empty_slot
             in title (fst created) = ''Hi'' \<and> tags (fst created) = [''a'', ''b''] \<and>
                favorite (fst created) = False \<and> id_note (fst created) = uid \<and>
                listTags lc (snd created) = [(''a'', 1), (''b'', 1)]))"
proof -
  have d: "distinct (map fst (listTags lc st))" by (rule listTags_distinct)
  have k: "fst ` set (listTags lc st) =
           {k. k \<noteq> [] \<and> (\<exists>n\<in>set (readStore_notes st). k \<in> trim ` set (tags n))}"
    by (rule listTags_keys)
  have c1: "\<forall>(k, c)\<in>set (listTags lc st). c = occurrences k (readStore_notes st)"
    using listTags_member_count[of _ _ lc st] by blast
  have c2: "(\<forall>n\<in>set (readStore_notes st). tags_ok (tags n)) \<longrightarrow>
            (\<forall>(k, c)\<in>set (listTags lc st).
                c = length (filter (\<lambda>n. k \<in> set (tags n)) (readStore_notes st)))"
    using listTags_member_notes[of st _ _ lc] by blast
  have "\<forall>n\<in>set (readStore_notes empty_slot). tags_ok (tags n)"
    by (simp add: empty_slot_def readStore_notes_def)
  then have "\<forall>n\<in>set (readStore_notes (run cs empty_slot)). tags_ok (tags n)"
    by (rule run_tags_ok)
  then have c3: "\<forall>(k, c)\<in>set (listTags lc (run cs empty_slot)).
                c = length (filter (\<lambda>n. k \<in> set (tags n))
                      (readStore_notes (run cs empty_slot)))"
    using listTags_member_notes[of "run cs empty_slot" _ _ lc] by blast
  have s: "sorted_wrt (\<lambda>a b. lc (fst a) (fst b) \<le> 0) (listTags lc st)"
    using assms by (rule listTags_sorted)
  have e: "lc ''a'' ''b'' \<le> 0 \<longrightarrow>
            (let created = createNote now uid
                   (no_fields\<lparr> title_opt := Some '' Hi '', tags_opt := Some [''a'', ''a'', '' b''] \<rparr>)
                   empty_slot
             in title (fst created) = ''Hi'' \<and> tags (fst created) = [''a'', ''b''] \<and>
                favorite (fst created) = False \<and> id_note (fst created) = uid \<and>
                listTags lc (snd created) = [(''a'', 1), (''b'', 1)])"
    by (simp add: createNote_def normalizeNote_def Let_def no_fields_def empty_slot_def
        readStore_notes_def writeStore_def trim_def is_space_def new_Set_def set_add_def
        listTags_def count_tag_def array_sort_def sort_compare_def)
  show ?thesis using d k c1 c2 c3 s e by (intro conjI)
qed

text \<open>
  Two stored notes with the tags a, b and b, B, ordered by code units; and the end-to-end
  scenario.
\<close>

theorem listTags_counts_witness:
  "consistent codeUnitCompare \<and> codeUnitCompare ''a'' ''b'' \<le> 0 \<and>
   list_all (\<lambda>n. tags_ok (tags n)) (readStore_notes
        \<lparr> slot = Some [exampleNote, exampleNote\<lparr> id_note := ''n2'', tags := [''b'', ''B''] \<rparr>],
          setItem_calls = 0 \<rparr>) \<and>
   listTags codeUnitCompare
        \<lparr> slot = Some [exampleNote, exampleNote\<lparr> id_note := ''n2'', tags := [''b'', ''B''] \<rparr>],
          setItem_calls = 0 \<rparr> = [(''B'', 1), (''a'', 1), (''b'', 2)] \<and>
   list_all (\<lambda>(k, c). c = length (filter (\<lambda>n. k \<in> set (tags n))
            [exampleNote, exampleNote\<lparr> id_note := ''n2'', tags := [''b'', ''B''] \<rparr>]))
     (listTags codeUnitCompare
        \<lparr> slot = Some [exampleNote, exampleNote\<lparr> id_note := ''n2'', tags := [''b'', ''B''] \<rparr>],
          setItem_calls = 0 \<rparr>) \<and>
   listTags codeUnitCompare
     (snd (createNote ''2024-01-01T00:00:00.000Z'' ''id-k3x9''
            (no_fields\<lparr> title_opt := Some '' Hi '', tags_opt := Some [''a'', ''a'', '' b''] \<rparr>)
            empty_slot)) = [(''a'', 1), (''b'', 1)]"
proof -
  let ?st = "\<lparr> slot = Some [exampleNote, exampleNote\<lparr> id_note := ''n2'', tags := [''b'', ''B''] \<rparr>],
          setItem_calls = 0 \<rparr>"
  note inst = listTags_counts[OF consistent_codeUnitCompare, of ?st "[]"
      "''2024-01-01T00:00:00.000Z''" "''id-k3x9''"]
  have ab: "codeUnitCompare ''a'' ''b'' \<le> 0" by simp
  have ok: "\<forall>n\<in>set (readStore_notes ?st). tags_ok (tags n)"
    by (simp add: readStore_notes_def exampleNote_def tags_ok_def trim_def is_space_def)
  have l: "listTags codeUnitCompare ?st = [(''B'', 1), (''a'', 1), (''b'', 2)]"
    by code_simp
  have r: "readStore_notes ?st = [exampleNote, exampleNote\<lparr> id_note := ''n2'', tags := [''b'', ''B''] \<rparr>]"
    by (simp add: readStore_notes_def)
  have c: "\<forall>(k, c)\<in>set (listTags codeUnitCompare ?st).
      c = length (filter (\<lambda>n. k \<in> set (tags n))
            [exampleNote, exampleNote\<lparr> id_note := ''n2'', tags := [''b'', ''B''] \<rparr>])"
    using inst ok unfolding r by blast
  have e: "listTags codeUnitCompare
     (snd (createNote ''2024-01-01T00:00:00.000Z'' ''id-k3x9''
            (no_fields\<lparr> title_opt := Some '' Hi '', tags_opt := Some [''a'', ''a'', '' b''] \<rparr>)
            empty_slot)) = [(''a'', 1), (''b'', 1)]"
    using inst ab by (simp add: Let_def)
  have ok': "list_all (\<lambda>n. tags_ok (tags n)) (readStore_notes ?st)"
    using ok by (simp only: list_all_iff)
  have c': "list_all (\<lambda>(k, c). c = length (filter (\<lambda>n. k \<in> set (tags n))
            [exampleNote, exampleNote\<lparr> id_note := ''n2'', tags := [''b'', ''B''] \<rparr>]))
     (listTags codeUnitCompare ?st)"
    using c by (simp only: list_all_iff)
  show ?thesis using consistent_codeUnitCompare ab ok' l c' e by (intro conjI)
qed

end
